theory Spec2Isabelle
  imports Complex_Main "HOL-Library.Sublist"
begin

section \<open>Python strings\<close>

text \<open>
  The scripts work on Python \<^verbatim>\<open>str\<close> values. They are modelled as \<^typ>\<open>string\<close>: a
  character of the model is a code point below 256 (ASCII and Latin-1), and the character
  classes and the case mapping below are Python's on that range. \<^verbatim>\<open>None\<close> is modelled by
  \<^term>\<open>None\<close> of an option type, and Python's truth test of an optional string
  (\<^verbatim>\<open>if not x\<close>) by \<open>falsy\<close>.
\<close>

definition is_space :: "char \<Rightarrow> bool" where
  \<comment> \<open>\<^verbatim>\<open>str.isspace\<close>, and the class \<^verbatim>\<open>\s\<close> of \<^verbatim>\<open>re\<close>: TAB, LF, VT, FF, CR, FS, GS, RS, US, SPACE,
      NEL (U+0085) and the no-break space (U+00A0).\<close>
  "is_space c = (of_char c \<in> {9, 10, 11, 12, 13, 28, 29, 30, 31, 32, 133, 160 :: nat})"

definition is_word_char :: "char \<Rightarrow> bool" where
  \<comment> \<open>The class \<^verbatim>\<open>\w\<close> of \<^verbatim>\<open>re\<close> on a \<^verbatim>\<open>str\<close> pattern: the underscore and what
      \<^verbatim>\<open>str.isalnum\<close> accepts, which in Latin-1 adds the ordinal indicators, the
      superscript digits, the micro sign, the fractions and the accented letters.\<close>
  "is_word_char c =
     (let n = of_char c :: nat
      in (48 \<le> n \<and> n \<le> 57) \<or> (65 \<le> n \<and> n \<le> 90) \<or> n = 95 \<or> (97 \<le> n \<and> n \<le> 122) \<or>
         n \<in> {170, 178, 179, 181, 185, 186} \<or> (188 \<le> n \<and> n \<le> 190) \<or>
         (192 \<le> n \<and> n \<le> 214) \<or> (216 \<le> n \<and> n \<le> 246) \<or> 248 \<le> n)"

definition upper_letters :: "char list" where
  \<comment> \<open>The characters \<^verbatim>\<open>str.lower\<close> changes: A to Z, and U+00C0 to U+00DE without the
      multiplication sign U+00D7.\<close>
  "upper_letters = ''ABCDEFGHIJKLMNOPQRSTUVWXYZ'' @ [
      CHR 0xC0, CHR 0xC1, CHR 0xC2, CHR 0xC3, CHR 0xC4, CHR 0xC5, CHR 0xC6, CHR 0xC7,
      CHR 0xC8, CHR 0xC9, CHR 0xCA, CHR 0xCB, CHR 0xCC, CHR 0xCD, CHR 0xCE, CHR 0xCF,
      CHR 0xD0, CHR 0xD1, CHR 0xD2, CHR 0xD3, CHR 0xD4, CHR 0xD5, CHR 0xD6, CHR 0xD8,
      CHR 0xD9, CHR 0xDA, CHR 0xDB, CHR 0xDC, CHR 0xDD, CHR 0xDE]"

definition lower_letters :: "char list" where
  \<comment> \<open>Their lower-case forms, in the same order: a to z, and U+00E0 to U+00FE without the
      division sign U+00F7.\<close>
  "lower_letters = ''abcdefghijklmnopqrstuvwxyz'' @ [
      CHR 0xE0, CHR 0xE1, CHR 0xE2, CHR 0xE3, CHR 0xE4, CHR 0xE5, CHR 0xE6, CHR 0xE7,
      CHR 0xE8, CHR 0xE9, CHR 0xEA, CHR 0xEB, CHR 0xEC, CHR 0xED, CHR 0xEE, CHR 0xEF,
      CHR 0xF0, CHR 0xF1, CHR 0xF2, CHR 0xF3, CHR 0xF4, CHR 0xF5, CHR 0xF6, CHR 0xF8,
      CHR 0xF9, CHR 0xFA, CHR 0xFB, CHR 0xFC, CHR 0xFD, CHR 0xFE]"

definition lower_char :: "char \<Rightarrow> char" where
  "lower_char c = (case map_of (zip upper_letters lower_letters) c of Some l \<Rightarrow> l | None \<Rightarrow> c)"

definition title_char :: "char \<Rightarrow> string" where
  \<comment> \<open>The title-case form \<^verbatim>\<open>str.capitalize\<close> gives the first character; the sharp s
      (U+00DF) becomes the two letters \<^verbatim>\<open>Ss\<close>. The micro sign (U+00B5) and the y with
      diaeresis (U+00FF) are left as they are: Python maps them to U+039C and U+0178, which
      are not characters of the model.\<close>
  "title_char c =
     (if c = CHR 0xDF then ''Ss''
      else [case map_of (zip lower_letters upper_letters) c of Some u \<Rightarrow> u | None \<Rightarrow> c])"

definition py_lower :: "string \<Rightarrow> string" where
  \<comment> \<open>\<^verbatim>\<open>s.lower()\<close>\<close>
  "py_lower s = map lower_char s"

fun py_capitalize :: "string \<Rightarrow> string" where
  \<comment> \<open>\<^verbatim>\<open>s.capitalize()\<close>: first character title case, the rest lower case.\<close>
  "py_capitalize [] = []"
| "py_capitalize (c # cs) = title_char c @ map lower_char cs"

definition strip_where :: "(char \<Rightarrow> bool) \<Rightarrow> string \<Rightarrow> string" where
  "strip_where P s = rev (dropWhile P (rev (dropWhile P s)))"

definition py_strip :: "string \<Rightarrow> string" where
  \<comment> \<open>\<^verbatim>\<open>s.strip()\<close>\<close>
  "py_strip s = strip_where is_space s"

definition py_strip_chars :: "string \<Rightarrow> string \<Rightarrow> string" where
  \<comment> \<open>\<^verbatim>\<open>s.strip(chars)\<close>\<close>
  "py_strip_chars chars s = strip_where (\<lambda>c. c \<in> set chars) s"

fun py_find :: "string \<Rightarrow> string \<Rightarrow> nat option" where
  \<comment> \<open>Index of the first occurrence of \<open>sub\<close> in the string, if there is one.\<close>
  "py_find sub [] = (if sub = [] then Some 0 else None)"
| "py_find sub (c # cs) =
     (if prefix sub (c # cs) then Some 0 else map_option Suc (py_find sub cs))"

definition py_in :: "string \<Rightarrow> string \<Rightarrow> bool" where
  \<comment> \<open>\<^verbatim>\<open>sub in s\<close>\<close>
  "py_in sub s = (py_find sub s \<noteq> None)"

definition split_once_before :: "string \<Rightarrow> string \<Rightarrow> string" where
  \<comment> \<open>\<^verbatim>\<open>s.split(sep, 1)[0]\<close>\<close>
  "split_once_before sep s = (case py_find sep s of None \<Rightarrow> s | Some i \<Rightarrow> take i s)"

definition split_once_after :: "string \<Rightarrow> string \<Rightarrow> string" where
  \<comment> \<open>\<^verbatim>\<open>s.split(sep, 1)[1]\<close>, used only where \<^verbatim>\<open>sep in s\<close> has been tested.\<close>
  "split_once_after sep s =
     (case py_find sep s of None \<Rightarrow> [] | Some i \<Rightarrow> drop (i + length sep) s)"

fun py_replace :: "string \<Rightarrow> string \<Rightarrow> string \<Rightarrow> string" where
  \<comment> \<open>\<^verbatim>\<open>s.replace(old, new)\<close> for a non-empty \<open>old\<close>: every occurrence, left to right,
      non-overlapping.\<close>
  "py_replace old new [] = []"
| "py_replace old new (c # cs) =
     (if old \<noteq> [] \<and> prefix old (c # cs)
      then new @ py_replace old new (drop (length old) (c # cs))
      else c # py_replace old new cs)"

fun py_split_char :: "char \<Rightarrow> string \<Rightarrow> string list" where
  \<comment> \<open>\<^verbatim>\<open>s.split(d)\<close> for a one-character separator: never the empty list.\<close>
  "py_split_char d [] = [[]]"
| "py_split_char d (c # cs) =
     (if c = d then [] # py_split_char d cs
      else (case py_split_char d cs of
              [] \<Rightarrow> [[c]]
            | p # ps \<Rightarrow> (c # p) # ps))"

fun py_split_ws :: "string \<Rightarrow> string list" where
  \<comment> \<open>\<^verbatim>\<open>s.split()\<close>: the maximal runs of non-whitespace characters.\<close>
  "py_split_ws [] = []"
| "py_split_ws (c # cs) =
     (if is_space c then py_split_ws cs
      else (case cs of
              [] \<Rightarrow> [[c]]
            | c' # _ \<Rightarrow>
                if is_space c' then [c] # py_split_ws cs
                else (case py_split_ws cs of
                        [] \<Rightarrow> [[c]]
                      | w # ws \<Rightarrow> (c # w) # ws)))"

fun py_join :: "string \<Rightarrow> string list \<Rightarrow> string" where
  \<comment> \<open>\<^verbatim>\<open>sep.join(parts)\<close>\<close>
  "py_join sep [] = []"
| "py_join sep [p] = p"
| "py_join sep (p # q # ps) = p @ sep @ py_join sep (q # ps)"

fun sub_ws_runs :: "bool \<Rightarrow> string \<Rightarrow> string" where
  \<comment> \<open>\<^verbatim>\<open>re.sub(r"\s+", " ", s)\<close>: every maximal run of whitespace becomes one space. The
      flag says that the previous character was whitespace (the run is already replaced).\<close>
  "sub_ws_runs in_run [] = []"
| "sub_ws_runs in_run (c # cs) =
     (if is_space c then (if in_run then sub_ws_runs True cs else CHR '' '' # sub_ws_runs True cs)
      else c # sub_ws_runs False cs)"

definition falsy :: "string option \<Rightarrow> bool" where
  \<comment> \<open>\<^verbatim>\<open>not x\<close> for a value that is \<^verbatim>\<open>None\<close> or a string.\<close>
  "falsy x = (x = None \<or> x = Some [])"

section \<open>Filename sanitization\<close>

text \<open>
  \<^verbatim>\<open>sanitize_for_filename\<close> (the same in \<^verbatim>\<open>Not_JoAps.py\<close> and \<^verbatim>\<open>Not_JoAps-WD.py\<close>):
  \<^verbatim>\<open>
    if not text: return "Unknown"
    text = re.sub(r"\s+", " ", text).strip()
    text = re.sub(r'[\\/:*?"<>|]', "", text)
    text = text.replace(" ", "_")
    return text[:80] or "Unknown"
  \<close>
\<close>

definition forbidden_chars :: "char list" where
  \<comment> \<open>The character class of the second \<^verbatim>\<open>re.sub\<close>: backslash, slash, colon, star, question
      mark, double quote, angle brackets, bar.\<close>
  "forbidden_chars =
     [CHR 0x5C, CHR ''/'', CHR '':'', CHR ''*'', CHR ''?'', CHR 0x22, CHR ''<'', CHR ''>'', CHR ''|'']"

definition sanitize_for_filename :: "string \<Rightarrow> string" where
  "sanitize_for_filename s =
     (if s = [] then ''Unknown''
      else
        let s1 = py_strip (sub_ws_runs False s);
            s2 = filter (\<lambda>c. c \<notin> set forbidden_chars) s1;
            s3 = py_replace '' '' ''_'' s2;
            s4 = take 80 s3
        in if s4 = [] then ''Unknown'' else s4)"

section \<open>The size-bounded compressor\<close>

text \<open>
  \<^verbatim>\<open>compress_png_to_pdf_under_size(png_path, pdf_path, max_bytes)\<close> (the same in
  \<^verbatim>\<open>Not_JoAps.py\<close> and \<^verbatim>\<open>Not_JoAps-WD.py\<close>):
  \<^verbatim>\<open>
    img = Image.open(png_path).convert("RGB")
    width, height = img.size
    scale = 1.0
    min_width = 800
    temp_jpeg = png_path.replace(".png", "_tmp.jpg")
    tmp_pdf = pdf_path + ".tmp"
    for _ in range(7):
        target_w = max(min_width, int(width * scale))
        target_h = int(height * scale)
        resized = img.resize((target_w, target_h), Image.LANCZOS)
        resized.save(temp_jpeg, "JPEG", quality=85)
        with Image.open(temp_jpeg) as jpg_img:
            jpg_img.save(tmp_pdf, "PDF", resolution=72)
        size = os.path.getsize(tmp_pdf)
        if size <= max_bytes or scale <= 0.4:
            shutil.move(tmp_pdf, pdf_path)
            if os.path.exists(temp_jpeg):
                os.remove(temp_jpeg)
            return pdf_path
        scale *= 0.8
    shutil.move(tmp_pdf, pdf_path)
    if os.path.exists(temp_jpeg):
        os.remove(temp_jpeg)
    return pdf_path
  \<close>
  The image library is outside the repository. What its calls do for the bitmap at hand is
  a parameter of the model (\<open>pillow\<close>): the decoded size, whether resizing and saving the
  JPEG succeeds for a target size, and the byte size of the PDF written for a target size
  (\<open>None\<close> when that save raises). A save that raises leaves the set of existing files as
  it was. The file system is a map from paths to what the compressor wrote there.

  \<^verbatim>\<open>scale\<close> is a Python float; the model computes with the exact rationals
  \<open>(4/5) ^ k\<close>. The floats of the values the loop can reach exceed them by less than
  one part in \<open>10 ^ 15\<close>, which changes neither the test \<^verbatim>\<open>scale <= 0.4\<close> nor the truncation
  \<^verbatim>\<open>int(width * scale)\<close> of any pixel count a screenshot can have.
\<close>

datatype artifact = Other | Jpeg nat nat | Pdf nat nat

type_synonym filesystem = "string \<rightharpoonup> artifact"

datatype pil_error = OpenFailed | JpegSaveFailed | PdfSaveFailed | MoveFailed

record pillow =
  decoded_size :: "(nat \<times> nat) option"
  jpeg_save_ok :: "nat \<Rightarrow> nat \<Rightarrow> bool"
  pdf_save_size :: "nat \<Rightarrow> nat \<Rightarrow> nat option"

text \<open>
  A run of the compressor ends by raising or by returning \<^verbatim>\<open>pdf_path\<close>, from inside the
  loop (\<open>Accepted\<close>) or from the statements after it (\<open>Fallback\<close>). Next to that, the
  model records the target sizes passed to \<^verbatim>\<open>img.resize\<close>, one per attempt made, and the
  file system the run leaves behind.
\<close>

datatype outcome = Raised pil_error | Accepted string | Fallback string

record run =
  outcome :: outcome
  resamples :: "(nat \<times> nat) list"
  files :: filesystem

record job =
  pil :: pillow
  max_bytes :: nat
  width :: nat
  height :: nat
  temp_jpeg :: string
  tmp_pdf :: string
  pdf_path :: string

definition min_width :: nat where
  "min_width = 800"

definition trunc_scaled :: "nat \<Rightarrow> rat \<Rightarrow> nat" where
  \<comment> \<open>\<^verbatim>\<open>int(n * scale)\<close>\<close>
  "trunc_scaled n scale = nat \<lfloor>of_nat n * scale\<rfloor>"

definition target_w :: "nat \<Rightarrow> rat \<Rightarrow> nat" where
  "target_w w scale = max min_width (trunc_scaled w scale)"

definition target_h :: "nat \<Rightarrow> rat \<Rightarrow> nat" where
  "target_h h scale = trunc_scaled h scale"

definition fs_move :: "string \<Rightarrow> string \<Rightarrow> filesystem \<Rightarrow> filesystem option" where
  \<comment> \<open>\<^verbatim>\<open>shutil.move(src, dst)\<close>; it raises when \<open>src\<close> does not exist.\<close>
  "fs_move src dst fs =
     (case fs src of
        None \<Rightarrow> None
      | Some a \<Rightarrow> Some ((fs(src := None))(dst \<mapsto> a)))"

definition fs_remove_if_exists :: "string \<Rightarrow> filesystem \<Rightarrow> filesystem" where
  \<comment> \<open>\<^verbatim>\<open>if os.path.exists(p): os.remove(p)\<close>\<close>
  "fs_remove_if_exists p fs = fs(p := None)"

definition deliver :: "(string \<Rightarrow> outcome) \<Rightarrow> job \<Rightarrow> (nat \<times> nat) list \<Rightarrow> filesystem \<Rightarrow> run" where
  \<comment> \<open>The three closing statements, which stand twice in the source: in the loop and after it.\<close>
  "deliver exit_by j tr fs =
     (case fs_move (tmp_pdf j) (pdf_path j) fs of
        None \<Rightarrow> \<lparr>outcome = Raised MoveFailed, resamples = tr, files = fs\<rparr>
      | Some fs' \<Rightarrow>
          \<lparr>outcome = exit_by (pdf_path j), resamples = tr,
           files = fs_remove_if_exists (temp_jpeg j) fs'\<rparr>)"

fun attempt_loop :: "job \<Rightarrow> nat \<Rightarrow> rat \<Rightarrow> (nat \<times> nat) list \<Rightarrow> filesystem \<Rightarrow> run" where
  \<comment> \<open>The \<^verbatim>\<open>for\<close> loop with the given number of iterations left, and the code after it.\<close>
  "attempt_loop j 0 scale tr fs = deliver Fallback j tr fs"
| "attempt_loop j (Suc n) scale tr fs =
     (let tw = target_w (width j) scale;
          th = target_h (height j) scale;
          tr' = tr @ [(tw, th)]
      in if \<not> jpeg_save_ok (pil j) tw th
         then \<lparr>outcome = Raised JpegSaveFailed, resamples = tr', files = fs\<rparr>
         else
           let fs1 = fs(temp_jpeg j \<mapsto> Jpeg tw th)
           in case pdf_save_size (pil j) tw th of
                None \<Rightarrow> \<lparr>outcome = Raised PdfSaveFailed, resamples = tr', files = fs1\<rparr>
              | Some sz \<Rightarrow>
                  let fs2 = fs1(tmp_pdf j \<mapsto> Pdf tw th)
                  in if sz \<le> max_bytes j \<or> scale \<le> 2 / 5
                     then deliver Accepted j tr' fs2
                     else attempt_loop j n (scale * (4 / 5)) tr' fs2)"

definition compress_job :: "pillow \<Rightarrow> string \<Rightarrow> string \<Rightarrow> nat \<Rightarrow> nat \<Rightarrow> nat \<Rightarrow> job" where
  \<comment> \<open>The local variables of a call that stay fixed during the loop.\<close>
  "compress_job p png_path pdf max_b w h =
     \<lparr>pil = p, max_bytes = max_b, width = w, height = h,
      temp_jpeg = py_replace ''.png'' ''_tmp.jpg'' png_path,
      tmp_pdf = pdf @ ''.tmp'',
      pdf_path = pdf\<rparr>"

definition compress_png_to_pdf_under_size ::
  "pillow \<Rightarrow> filesystem \<Rightarrow> string \<Rightarrow> string \<Rightarrow> nat \<Rightarrow> run" where
  "compress_png_to_pdf_under_size p fs png_path pdf max_b =
     (case decoded_size p of
        None \<Rightarrow> \<lparr>outcome = Raised OpenFailed, resamples = [], files = fs\<rparr>
      | Some (w, h) \<Rightarrow> attempt_loop (compress_job p png_path pdf max_b w h) 7 1 [] fs)"

text \<open>
  Notions used to state the properties of the loop: the pair of target sizes of an attempt
  at a given scale, the file system once that attempt has written its two files, the byte
  size the attempt measures (\<open>None\<close> when one of its saves raises), and the loop's
  acceptance test.
\<close>

definition attempt_dims :: "nat \<Rightarrow> nat \<Rightarrow> rat \<Rightarrow> nat \<times> nat" where
  "attempt_dims w h s = (target_w w s, target_h h s)"

definition after_attempt :: "job \<Rightarrow> rat \<Rightarrow> filesystem \<Rightarrow> filesystem" where
  "after_attempt j s fs =
     fs(temp_jpeg j \<mapsto> Jpeg (target_w (width j) s) (target_h (height j) s),
        tmp_pdf j \<mapsto> Pdf (target_w (width j) s) (target_h (height j) s))"

definition attempt_size :: "pillow \<Rightarrow> nat \<Rightarrow> nat \<Rightarrow> rat \<Rightarrow> nat option" where
  "attempt_size p w h s =
     (if jpeg_save_ok p (target_w w s) (target_h h s)
      then pdf_save_size p (target_w w s) (target_h h s) else None)"

definition fits :: "nat \<Rightarrow> rat \<Rightarrow> nat \<Rightarrow> bool" where
  "fits mb s z = (z \<le> mb \<or> s \<le> 2 / 5)"

section \<open>Example inputs\<close>

text \<open>
  A stand-in for the image library whose calls always succeed and whose PDF takes one byte
  per pixel, for a bitmap of the given size; and a file system that holds the screenshot.
\<close>

definition example_pillow :: "nat \<Rightarrow> nat \<Rightarrow> pillow" where
  "example_pillow w h =
     \<lparr>decoded_size = Some (w, h), jpeg_save_ok = (\<lambda>tw th. True),
      pdf_save_size = (\<lambda>tw th. Some (tw * th))\<rparr>"

definition shot_fs :: filesystem where
  "shot_fs = [''shot.png'' \<mapsto> Other]"

text \<open>A run returned normally when it did not raise.\<close>

fun returned :: "outcome \<Rightarrow> bool" where
  "returned (Raised e) = False"
| "returned (Accepted q) = True"
| "returned (Fallback q) = True"

text \<open>The same stand-in, except that saving the PDF raises (a full disk, a directory that
  cannot be written).\<close>

definition pdf_failing_pillow :: pillow where
  "pdf_failing_pillow = (example_pillow 1000 2000)\<lparr>pdf_save_size := (\<lambda>tw th. None)\<rparr>"

text \<open>
  A stand-in whose JPEG save succeeds only for a target 1000 wide, so that the second attempt
  on a bitmap of \<open>1000 \<times> 2000\<close> raises; and one whose PDF grows when the image shrinks.
\<close>

definition jpeg_failing_pillow :: pillow where
  "jpeg_failing_pillow = (example_pillow 1000 2000)\<lparr>jpeg_save_ok := (\<lambda>tw th. tw = 1000)\<rparr>"

definition noisy_pillow :: pillow where
  "noisy_pillow =
     (example_pillow 1000 2000)
       \<lparr>pdf_save_size := (\<lambda>tw th. Some (if th = 2000 then 6000000 else 7000000))\<rparr>"

text \<open>
  The byte sizes a run measured, one per attempt (\<open>None\<close> where a save raised), and what it
  means for the encoder to be monotone: a target that is no larger on either side gives a
  PDF that is no larger.
\<close>

definition measured_sizes :: "pillow \<Rightarrow> run \<Rightarrow> nat option list" where
  "measured_sizes p r =
     map (\<lambda>(tw, th). if jpeg_save_ok p tw th then pdf_save_size p tw th else None) (resamples r)"

definition encoder_monotone :: "pillow \<Rightarrow> bool" where
  "encoder_monotone p =
     (\<forall>tw th tw' th' z z'.
        tw' \<le> tw \<and> th' \<le> th \<and> pdf_save_size p tw th = Some z \<and>
        pdf_save_size p tw' th' = Some z' \<longrightarrow> z' \<le> z)"

section \<open>The metadata extractor\<close>

text \<open>
  \<^verbatim>\<open>extract_job_info_from_html(html, url)\<close> exists twice: in \<^verbatim>\<open>Not_JoAps.py\<close> and, with a
  JSON-LD step and a Workday host step in front, in \<^verbatim>\<open>Not_JoAps-WD.py\<close>. Both parse the HTML
  with BeautifulSoup and the URL with \<^verbatim>\<open>urlparse\<close>, which are outside the repository. The
  model takes what those calls return as its input: \<open>page\<close> holds the result of each query
  the code makes on the parsed document, and the host name is \<^verbatim>\<open>urlparse(url).hostname\<close>
  (\<open>None\<close> when the URL has none).
\<close>

datatype json = JNull | JBool bool | JNum int | JStr string | JArr "json list"
  | JObj "(string \<times> json) list"

record page =
  og_title :: "string option"
  title_string :: "string option"
  h1_text :: "string option"
  attr_text :: "string \<Rightarrow> string \<Rightarrow> string option"
  og_site_name :: "string option"
  hiring_org_name :: "string option"
  ld_json :: "json option list"

text \<open>
  \<^item> \<open>og_title\<close>: the \<^verbatim>\<open>content\<close> attribute of \<^verbatim>\<open>soup.find("meta", property="og:title")\<close>;
    \<open>None\<close> when there is no such element or it has no such attribute.
  \<^item> \<open>title_string\<close>: \<^verbatim>\<open>soup.title.string\<close>; \<open>None\<close> when there is no title element or
    its \<^verbatim>\<open>string\<close> is \<^verbatim>\<open>None\<close>.
  \<^item> \<open>h1_text\<close>: \<^verbatim>\<open>soup.find("h1").get_text(strip=True)\<close>; \<open>None\<close> when there is no
    \<^verbatim>\<open>h1\<close>.
  \<^item> \<open>attr_text a v\<close>: \<^verbatim>\<open>get_text(strip=True)\<close> of
    \<^verbatim>\<open>soup.find(attrs={a: re.compile(v, re.I)})\<close>; \<open>None\<close> when nothing matches.
  \<^item> \<open>og_site_name\<close>: as \<open>og_title\<close>, for \<^verbatim>\<open>og:site_name\<close>.
  \<^item> \<open>hiring_org_name\<close>: the text of the \<^verbatim>\<open>itemprop="name"\<close> element found inside the
    first \<^verbatim>\<open>itemprop="hiringOrganization"\<close> element; \<open>None\<close> when either is missing.
  \<^item> \<open>ld_json\<close>: one entry per \<^verbatim>\<open>script\<close> of type \<^verbatim>\<open>application/ld+json\<close>, in document
    order: what \<^verbatim>\<open>json.loads\<close> returns for its text, or \<open>None\<close> when the text is empty
    or \<^verbatim>\<open>json.loads\<close> raises (the code skips both with \<^verbatim>\<open>continue\<close>). A JSON number is
    only ever tested for truth here, so integers stand for all numbers; an object is the
    list of its members, each key once.
\<close>

definition or_empty :: "string option \<Rightarrow> string" where
  \<comment> \<open>\<^verbatim>\<open>x or ""\<close>\<close>
  "or_empty x = (case x of None \<Rightarrow> [] | Some s \<Rightarrow> s)"

definition or_unknown :: "string \<Rightarrow> string" where
  \<comment> \<open>\<^verbatim>\<open>x or 'Unknown'\<close>\<close>
  "or_unknown s = (if s = [] then ''Unknown'' else s)"

definition resolve_title_text :: "page \<Rightarrow> string option" where
  \<comment> \<open>\<^verbatim>\<open>title_text\<close>: the OpenGraph title if present, else the title element's string.\<close>
  "resolve_title_text pg =
     (if \<not> falsy (og_title pg) then map_option py_strip (og_title pg)
      else if \<not> falsy (title_string pg) then map_option py_strip (title_string pg)
      else None)"

definition title_selectors :: "(string \<times> string) list" where
  "title_selectors =
     [(''data-qa'', ''job-title''), (''class'', ''job-title''), (''class'', ''posting-headline''),
      (''class'', ''job-header-title''), (''class'', ''job-title-text'')]"

definition company_selectors :: "(string \<times> string) list" where
  "company_selectors =
     [(''data-qa'', ''company-name''), (''class'', ''company-name''),
      (''class'', ''posting-company''), (''class'', ''job-header-company'')]"

fun first_selector_text :: "page \<Rightarrow> (string \<times> string) list \<Rightarrow> string option" where
  \<comment> \<open>The \<^verbatim>\<open>for attr, value in ...\<close> loops: the text of the first selector whose element
      exists and has text.\<close>
  "first_selector_text pg [] = None"
| "first_selector_text pg ((a, v) # rest) =
     (if \<not> falsy (attr_text pg a v) then attr_text pg a v else first_selector_text pg rest)"

definition title_from_page_title :: "string \<Rightarrow> string" where
  "title_from_page_title t =
     (let temp = (if py_in '' - '' t then split_once_before '' - '' t else t);
          temp' = (if py_in ''|'' temp then split_once_before ''|'' temp else temp)
      in py_strip temp')"

definition title_cascade :: "page \<Rightarrow> string option \<Rightarrow> string option \<Rightarrow> string option" where
  \<comment> \<open>The three title steps both files share, from the value \<^verbatim>\<open>job_title\<close> has before
      them: the first \<^verbatim>\<open>h1\<close>, the ATS selectors, the page title cut at a delimiter.\<close>
  "title_cascade pg title_text job_title =
     (let jt1 = (if falsy job_title \<and> \<not> falsy (h1_text pg) then h1_text pg else job_title);
          jt2 = (if falsy jt1
                 then (case first_selector_text pg title_selectors of
                         Some t \<Rightarrow> Some t
                       | None \<Rightarrow> jt1)
                 else jt1)
      in if falsy jt2 \<and> \<not> falsy title_text then map_option title_from_page_title title_text
         else jt2)"

definition suffix_words :: "string list" where
  \<comment> \<open>What \<^verbatim>\<open>(Careers?|Jobs?|Hiring)\<close> can match, lower case, in the order the regular
      expression tries them.\<close>
  "suffix_words = [''careers'', ''career'', ''jobs'', ''job'', ''hiring'']"

definition word_match_at :: "bool \<Rightarrow> string \<Rightarrow> string \<Rightarrow> bool" where
  \<comment> \<open>\<open>kw\<close> matches at the start of \<open>s\<close>, ignoring case, with a word boundary on both
      sides; \<open>prev_word\<close> says that the character before \<open>s\<close> is a word character.\<close>
  "word_match_at prev_word kw s =
     (\<not> prev_word \<and> map lower_char (take (length kw) s) = kw \<and>
      (case drop (length kw) s of [] \<Rightarrow> True | c # _ \<Rightarrow> \<not> is_word_char c))"

fun sub_suffix_words :: "nat \<Rightarrow> bool \<Rightarrow> string \<Rightarrow> string" where
  \<comment> \<open>\<^verbatim>\<open>re.sub(r"\b(Careers?|Jobs?|Hiring)\b", "", s, flags=re.IGNORECASE)\<close>. The counter is
      the number of characters of the current match still to be dropped.\<close>
  "sub_suffix_words skip prev_word [] = []"
| "sub_suffix_words skip prev_word (c # cs) =
     (if 0 < skip then sub_suffix_words (skip - 1) True cs
      else (case find (\<lambda>kw. word_match_at prev_word kw (c # cs)) suffix_words of
              Some kw \<Rightarrow> sub_suffix_words (length kw - 1) True cs
            | None \<Rightarrow> c # sub_suffix_words 0 (is_word_char c) cs))"

definition company_after_bar :: "string \<Rightarrow> string" where
  "company_after_bar t =
     py_strip_chars '' -|''
       (sub_suffix_words 0 False (py_strip (last (py_split_char CHR ''|'' t))))"

definition company_after_at :: "string \<Rightarrow> string" where
  "company_after_at t =
     py_strip_chars '' -|'' (hd (py_split_char CHR ''|'' (split_once_after '' at '' t)))"

definition step_og_site_name :: "page \<Rightarrow> string option" where
  "step_og_site_name pg =
     (if \<not> falsy (og_site_name pg) then map_option py_strip (og_site_name pg) else None)"

definition step_hiring_org :: "page \<Rightarrow> string option \<Rightarrow> string option" where
  "step_hiring_org pg company =
     (if falsy company \<and> \<not> falsy (hiring_org_name pg) then hiring_org_name pg else company)"

definition step_company_selectors :: "page \<Rightarrow> string option \<Rightarrow> string option" where
  "step_company_selectors pg company =
     (if falsy company
      then (case first_selector_text pg company_selectors of
              Some t \<Rightarrow> Some t
            | None \<Rightarrow> company)
      else company)"

definition step_after_bar :: "string option \<Rightarrow> string option \<Rightarrow> string option" where
  "step_after_bar title_text company =
     (case title_text of
        None \<Rightarrow> company
      | Some t \<Rightarrow>
          if falsy company \<and> t \<noteq> [] \<and> py_in ''|'' t \<and> company_after_bar t \<noteq> []
          then Some (company_after_bar t) else company)"

definition step_at :: "string option \<Rightarrow> string option \<Rightarrow> string option" where
  "step_at title_text company =
     (case title_text of
        None \<Rightarrow> company
      | Some t \<Rightarrow>
          if t \<noteq> [] \<and> py_in '' at '' t \<and> falsy company \<and> company_after_at t \<noteq> []
          then Some (company_after_at t) else company)"

definition company_from_host :: "string \<Rightarrow> string" where
  \<comment> \<open>The last resort; \<open>hostname\<close> is the host name with \<^verbatim>\<open>None\<close> already replaced by the empty
      string.\<close>
  "company_from_host hostname =
     (let host = py_replace ''www.'' '''' hostname;
          parts = py_split_char CHR ''.'' host;
          base = (if 2 \<le> length parts then parts ! (length parts - 2)
                  else if parts \<noteq> [] then parts ! 0
                  else ''Unknown'')
      in py_capitalize base)"

definition step_host :: "string \<Rightarrow> string option \<Rightarrow> string" where
  "step_host hostname company =
     (case company of
        None \<Rightarrow> company_from_host hostname
      | Some c \<Rightarrow> if c = [] then company_from_host hostname else c)"

definition final_title :: "string \<Rightarrow> string option \<Rightarrow> string" where
  "final_title hostname job_title =
     (case job_title of
        None \<Rightarrow> ''Job from '' @ or_unknown hostname
      | Some t \<Rightarrow> if t = [] then ''Job from '' @ or_unknown hostname else t)"

definition extract_job_info_from_html :: "page \<Rightarrow> string option \<Rightarrow> string \<times> string" where
  \<comment> \<open>\<^verbatim>\<open>Not_JoAps.py\<close>\<close>
  "extract_job_info_from_html pg url_hostname =
     (let title_text = resolve_title_text pg;
          job_title = title_cascade pg title_text None;
          c1 = step_og_site_name pg;
          c2 = step_hiring_org pg c1;
          c3 = step_company_selectors pg c2;
          c4 = step_after_bar title_text c3;
          c5 = step_at title_text c4;
          company = step_host (or_empty url_hostname) c5
      in (final_title (or_empty url_hostname) job_title, company))"

subsection \<open>The Workday variant\<close>

datatype 'a raising = RaisesAttributeError | Ret 'a

fun py_truthy :: "json \<Rightarrow> bool" where
  "py_truthy JNull = False"
| "py_truthy (JBool b) = b"
| "py_truthy (JNum n) = (n \<noteq> 0)"
| "py_truthy (JStr s) = (s \<noteq> [])"
| "py_truthy (JArr xs) = (xs \<noteq> [])"
| "py_truthy (JObj kvs) = (kvs \<noteq> [])"

definition dict_get :: "(string \<times> json) list \<Rightarrow> string \<Rightarrow> json" where
  \<comment> \<open>\<^verbatim>\<open>d.get(key)\<close>, with \<^verbatim>\<open>None\<close> as \<open>JNull\<close>\<close>
  "dict_get kvs k = (case map_of kvs k of None \<Rightarrow> JNull | Some v \<Rightarrow> v)"

fun stripped_if_str :: "json \<Rightarrow> string option" where
  \<comment> \<open>\<^verbatim>\<open>x.strip() if isinstance(x, str) else None\<close>\<close>
  "stripped_if_str (JStr s) = Some (py_strip s)"
| "stripped_if_str _ = None"

fun is_job_posting :: "json \<Rightarrow> bool" where
  \<comment> \<open>The test on \<^verbatim>\<open>obj.get("@type")\<close>\<close>
  "is_job_posting (JArr ts) = (JStr ''JobPosting'' \<in> set ts)"
| "is_job_posting t = (t = JStr ''JobPosting'')"

fun get_name_of :: "json \<Rightarrow> json raising" where
  \<comment> \<open>\<^verbatim>\<open>(x or {}).get("name")\<close>: only a dict has \<^verbatim>\<open>get\<close>.\<close>
  "get_name_of (JObj kvs) = Ret (dict_get kvs ''name'')"
| "get_name_of x = (if py_truthy x then RaisesAttributeError else Ret JNull)"

fun try_extract_jobposting_from_obj :: "json \<Rightarrow> (string option \<times> string option) option raising" where
  "try_extract_jobposting_from_obj (JObj kvs) =
     (if \<not> is_job_posting (dict_get kvs ''@type'') then Ret None
      else
        (case (if py_truthy (dict_get kvs ''title'') then Ret (dict_get kvs ''title'')
               else get_name_of (dict_get kvs ''identifier'')) of
           RaisesAttributeError \<Rightarrow> RaisesAttributeError
         | Ret jt \<Rightarrow>
             let org = (if py_truthy (dict_get kvs ''hiringOrganization'')
                        then dict_get kvs ''hiringOrganization'' else JObj []);
                 cname = (case org of JObj okvs \<Rightarrow> dict_get okvs ''name'' | _ \<Rightarrow> JNull)
             in Ret (Some (stripped_if_str jt, stripped_if_str cname))))"
| "try_extract_jobposting_from_obj _ = Ret None"

fun first_candidate :: "json list \<Rightarrow> (string option \<times> string option) option raising" where
  \<comment> \<open>The inner loop over the items of a JSON array.\<close>
  "first_candidate [] = Ret None"
| "first_candidate (item # items) =
     (case try_extract_jobposting_from_obj item of
        RaisesAttributeError \<Rightarrow> RaisesAttributeError
      | Ret None \<Rightarrow> first_candidate items
      | Ret (Some c) \<Rightarrow> Ret (Some c))"

fun scan_ld_json :: "json option list \<Rightarrow> (string option \<times> string option) option raising" where
  \<comment> \<open>The loop over the script blocks, up to its \<^verbatim>\<open>break\<close>.\<close>
  "scan_ld_json [] = Ret None"
| "scan_ld_json (None # blocks) = scan_ld_json blocks"
| "scan_ld_json (Some data # blocks) =
     (case (case data of
              JArr items \<Rightarrow> first_candidate items
            | _ \<Rightarrow> try_extract_jobposting_from_obj data) of
        RaisesAttributeError \<Rightarrow> RaisesAttributeError
      | Ret None \<Rightarrow> scan_ld_json blocks
      | Ret (Some c) \<Rightarrow> Ret (Some c))"

definition step_ld_json :: "page \<Rightarrow> string option \<times> string option" where
  \<comment> \<open>\<^verbatim>\<open>job_title\<close> and \<^verbatim>\<open>company\<close> after the \<^verbatim>\<open>try ... except Exception: pass\<close> block.\<close>
  "step_ld_json pg =
     (case scan_ld_json (ld_json pg) of
        Ret (Some (jt, cname)) \<Rightarrow>
          (if falsy jt then None else jt, if falsy cname then None else cname)
      | _ \<Rightarrow> (None, None))"

definition workday_brand :: "string \<Rightarrow> string" where
  \<comment> \<open>The company name made from the first label of a Workday host name, when that label is
      not empty.\<close>
  "workday_brand brand =
     py_join '' '' (map py_capitalize (py_split_ws (py_replace ''-'' '' '' brand)))"

definition step_workday :: "string \<Rightarrow> string option \<Rightarrow> string option" where
  "step_workday hostname company =
     (if py_in ''myworkdayjobs.com'' hostname
      then (let host = py_replace ''www.'' '''' hostname;
                brand = hd (py_split_char CHR ''.'' host)
            in if brand \<noteq> [] then Some (workday_brand brand) else company)
      else company)"

definition extract_job_info_from_html_WD :: "page \<Rightarrow> string option \<Rightarrow> string \<times> string" where
  \<comment> \<open>\<^verbatim>\<open>Not_JoAps-WD.py\<close>\<close>
  "extract_job_info_from_html_WD pg url_hostname =
     (let hostname = py_lower (or_empty url_hostname);
          (jt0, c0) = step_ld_json pg;
          c1 = step_workday hostname c0;
          title_text = resolve_title_text pg;
          job_title = title_cascade pg title_text jt0;
          c2 = (if falsy c1 then step_og_site_name pg else c1);
          c3 = step_hiring_org pg c2;
          c4 = step_after_bar title_text c3;
          c5 = step_at title_text c4;
          company = step_host hostname c5
      in (final_title hostname job_title, company))"

definition blank_page :: page where
  \<comment> \<open>What the queries return on a document with none of the elements the code looks for.\<close>
  "blank_page =
     \<lparr>og_title = None, title_string = None, h1_text = None, attr_text = (\<lambda>a v. None),
      og_site_name = None, hiring_org_name = None, ld_json = []\<rparr>"

text \<open>A page whose only title-bearing element is the title element of the example of C9.\<close>

definition at_title_page :: page where
  "at_title_page = blank_page\<lparr>title_string := Some ''Senior Engineer at Acme | Careers''\<rparr>"

text \<open>
  Two pages with a heading and JSON-LD job postings: one whose posting has a title and a
  hiring organization, and one whose first posting has no title and whose second has one.
\<close>

definition conflicting_page :: page where
  "conflicting_page = blank_page
     \<lparr>h1_text := Some ''Careers at Acme'',
      ld_json := [Some (JObj [(''@type'', JStr ''JobPosting''), (''title'', JStr ''Data Engineer''),
        (''hiringOrganization'', JObj [(''name'', JStr ''Other Inc'')])])]\<rparr>"

definition untitled_first_page :: page where
  "untitled_first_page = blank_page
     \<lparr>h1_text := Some ''Careers at Acme'',
      ld_json := [Some (JObj [(''@type'', JStr ''JobPosting'')]),
        Some (JObj [(''@type'', JStr ''JobPosting''), (''title'', JStr ''Data Engineer'')])]\<rparr>"

text \<open>
  The objects the JSON-LD scan looks at, in the order it looks at them: a block's top-level
  value, or the items of a block whose top-level value is an array; and the first of them
  that is an object tagged as a job posting.
\<close>

definition embedded_objects :: "json option list \<Rightarrow> json list" where
  "embedded_objects blocks =
     concat (map (\<lambda>b. case b of None \<Rightarrow> [] | Some (JArr items) \<Rightarrow> items | Some d \<Rightarrow> [d]) blocks)"

fun tagged_job_posting :: "json \<Rightarrow> bool" where
  "tagged_job_posting (JObj kvs) = is_job_posting (dict_get kvs ''@type'')"
| "tagged_job_posting _ = False"

definition first_posting :: "json option list \<Rightarrow> json option" where
  "first_posting blocks = find tagged_job_posting (embedded_objects blocks)"

text \<open>A page whose job posting is an item of a JSON array.\<close>

definition array_page :: page where
  "array_page = blank_page
     \<lparr>h1_text := Some ''Careers at Acme'',
      ld_json := [None, Some (JArr [JObj [(''@type'', JStr ''Organization'')],
        JObj [(''@type'', JArr [JStr ''Thing'', JStr ''JobPosting'']),
              (''title'', JStr '' Data Engineer '')]])]\<rparr>"

section \<open>The loop of the compressor, step by step\<close>

lemma floor_rat_numeral: "\<lfloor>(numeral a / numeral b :: rat)\<rfloor> = numeral a div numeral b"
  by (metis floor_divide_of_int_eq of_int_numeral)

lemma attempt_loop_numeral:
  "attempt_loop j (numeral k) scale tr fs =
     (let tw = target_w (width j) scale;
          th = target_h (height j) scale;
          tr' = tr @ [(tw, th)]
      in if \<not> jpeg_save_ok (pil j) tw th
         then \<lparr>outcome = Raised JpegSaveFailed, resamples = tr', files = fs\<rparr>
         else
           let fs1 = fs(temp_jpeg j \<mapsto> Jpeg tw th)
           in case pdf_save_size (pil j) tw th of
                None \<Rightarrow> \<lparr>outcome = Raised PdfSaveFailed, resamples = tr', files = fs1\<rparr>
              | Some sz \<Rightarrow>
                  let fs2 = fs1(tmp_pdf j \<mapsto> Pdf tw th)
                  in if sz \<le> max_bytes j \<or> scale \<le> 2 / 5
                     then deliver Accepted j tr' fs2
                     else attempt_loop j (pred_numeral k) (scale * (4 / 5)) tr' fs2)"
  unfolding numeral_eq_Suc by (rule attempt_loop.simps(2))

lemma resamples_deliver: "resamples (deliver e j tr fs) = tr"
  by (simp add: deliver_def split: option.split)

lemma outcome_deliver_Accepted: "outcome (deliver Accepted j tr fs) \<noteq> Fallback p"
  by (simp add: deliver_def split: option.split)

lemma attempt_step:
  obtains
    (jpeg_raises) "attempt_loop j (Suc n) s tr fs =
        \<lparr>outcome = Raised JpegSaveFailed,
         resamples = tr @ [attempt_dims (width j) (height j) s], files = fs\<rparr>"
  | (pdf_raises) "attempt_loop j (Suc n) s tr fs =
        \<lparr>outcome = Raised PdfSaveFailed,
         resamples = tr @ [attempt_dims (width j) (height j) s],
         files = fs(temp_jpeg j \<mapsto> Jpeg (target_w (width j) s) (target_h (height j) s))\<rparr>"
  | (accepted) "attempt_loop j (Suc n) s tr fs =
        deliver Accepted j (tr @ [attempt_dims (width j) (height j) s]) (after_attempt j s fs)"
  | (rejected) "\<not> s \<le> 2 / 5"
      "attempt_loop j (Suc n) s tr fs =
        attempt_loop j n (s * (4 / 5)) (tr @ [attempt_dims (width j) (height j) s])
          (after_attempt j s fs)"
proof (cases "jpeg_save_ok (pil j) (target_w (width j) s) (target_h (height j) s)")
  case False
  then show ?thesis
    using jpeg_raises by (simp add: Let_def attempt_dims_def)
next
  case ok: True
  show ?thesis
  proof (cases "pdf_save_size (pil j) (target_w (width j) s) (target_h (height j) s)")
    case None
    then show ?thesis
      using ok pdf_raises by (simp add: Let_def attempt_dims_def)
  next
    case (Some sz)
    show ?thesis
    proof (cases "sz \<le> max_bytes j \<or> s \<le> 2 / 5")
      case True
      then show ?thesis
        using ok Some accepted by (simp add: Let_def attempt_dims_def after_attempt_def)
    next
      case False
      then show ?thesis
        using ok Some rejected by (simp add: Let_def attempt_dims_def after_attempt_def)
    qed
  qed
qed


declare attempt_loop.simps(2) [simp del]

lemma resamples_attempt_loop:
  "\<exists>m\<le>n. resamples (attempt_loop j n s tr fs) =
      tr @ map (\<lambda>i. attempt_dims (width j) (height j) (s * (4 / 5) ^ i)) [0..<m]"
proof (induction n arbitrary: s tr fs)
  case 0
  have "resamples (attempt_loop j 0 s tr fs) =
      tr @ map (\<lambda>i. attempt_dims (width j) (height j) (s * (4 / 5) ^ i)) [0..<0]"
    by (simp add: resamples_deliver)
  then show ?case by blast
next
  case (Suc n)
  let ?d = "\<lambda>s i. attempt_dims (width j) (height j) (s * (4 / 5) ^ i)"
  let ?x = "attempt_dims (width j) (height j) s"
  have single: "resamples (attempt_loop j (Suc n) s tr fs) = tr @ [?x] \<Longrightarrow> ?case"
  proof -
    assume "resamples (attempt_loop j (Suc n) s tr fs) = tr @ [?x]"
    then have "resamples (attempt_loop j (Suc n) s tr fs) = tr @ map (?d s) [0..<Suc 0]"
      by simp
    moreover have "Suc 0 \<le> Suc n" by simp
    ultimately show ?case by blast
  qed
  show ?case
  proof (cases rule: attempt_step [of j n s tr fs])
    case jpeg_raises
    then show ?thesis using single by simp
  next
    case pdf_raises
    then show ?thesis using single by simp
  next
    case accepted
    then show ?thesis using single by (simp add: resamples_deliver)
  next
    case rejected
    from Suc.IH [of "s * (4 / 5)" "tr @ [?x]" "after_attempt j s fs"]
    obtain m where m: "m \<le> n"
      and eq: "resamples (attempt_loop j (Suc n) s tr fs) =
        (tr @ [?x]) @ map (?d (s * (4 / 5))) [0..<m]"
      using rejected(2) by auto
    have "(tr @ [?x]) @ map (?d (s * (4 / 5))) [0..<m] = tr @ map (?d s) [0..<Suc m]"
      by (simp add: map_upt_Suc mult.assoc del: upt_Suc)
    with eq have "resamples (attempt_loop j (Suc n) s tr fs) = tr @ map (?d s) [0..<Suc m]"
      by simp
    moreover have "Suc m \<le> Suc n" using m by simp
    ultimately show ?thesis by blast
  qed
qed

lemma attempt_loop_floor:
  "0 < m \<Longrightarrow> m \<le> n \<Longrightarrow> s * (4 / 5) ^ (m - 1) \<le> 2 / 5 \<Longrightarrow>
   length (resamples (attempt_loop j n s tr fs)) \<le> length tr + m \<and>
   (\<forall>p. outcome (attempt_loop j n s tr fs) \<noteq> Fallback p)"
proof (induction m arbitrary: n s tr fs)
  case 0
  then show ?case by simp
next
  case (Suc m)
  then obtain n' where n: "n = Suc n'" and mn: "m \<le> n'"
    by (cases n) auto
  let ?x = "attempt_dims (width j) (height j) s"
  have "length (resamples (attempt_loop j (Suc n') s tr fs)) \<le> length tr + Suc m \<and>
   (\<forall>p. outcome (attempt_loop j (Suc n') s tr fs) \<noteq> Fallback p)"
  proof (cases rule: attempt_step [of j n' s tr fs])
    case jpeg_raises
    then show ?thesis by simp
  next
    case pdf_raises
    then show ?thesis by simp
  next
    case accepted
    then show ?thesis by (simp add: resamples_deliver outcome_deliver_Accepted)
  next
    case rejected
    have "m \<noteq> 0"
    proof
      assume "m = 0"
      then have "s \<le> 2 / 5" using Suc.prems(3) by simp
      then show False using rejected(1) by simp
    qed
    then obtain k where k: "m = Suc k" by (cases m) auto
    then have m: "0 < m" by simp
    have "s * (4 / 5) * (4 / 5) ^ (m - 1) \<le> 2 / 5"
      using Suc.prems(3) k by (simp add: mult.assoc)
    from Suc.IH [OF m mn this, of "tr @ [?x]" "after_attempt j s fs"] rejected(2)
    show ?thesis by simp
  qed
  then show ?case using n by simp
qed


lemma scale_step: "s * (4 / 5) * (4 / 5) ^ i = s * (4 / 5 :: rat) ^ Suc i"
  by simp

lemma after_attempt_twice: "after_attempt j s' (after_attempt j s fs) = after_attempt j s' fs"
  by (rule ext) (simp add: after_attempt_def)

lemma attempt_rejected_step:
  "attempt_size (pil j) (width j) (height j) s = Some z \<Longrightarrow> \<not> fits (max_bytes j) s z \<Longrightarrow>
   attempt_loop j (Suc n) s tr fs =
     attempt_loop j n (s * (4 / 5)) (tr @ [attempt_dims (width j) (height j) s])
       (after_attempt j s fs)"
  by (simp add: attempt_loop.simps(2) attempt_size_def fits_def Let_def attempt_dims_def
      after_attempt_def split: if_splits)

lemma attempt_accepted_step:
  "attempt_size (pil j) (width j) (height j) s = Some z \<Longrightarrow> fits (max_bytes j) s z \<Longrightarrow>
   attempt_loop j (Suc n) s tr fs =
     deliver Accepted j (tr @ [attempt_dims (width j) (height j) s]) (after_attempt j s fs)"
  by (simp add: attempt_loop.simps(2) attempt_size_def fits_def Let_def attempt_dims_def
      after_attempt_def split: if_splits)

lemma attempt_loop_first_accept:
  "k < n \<Longrightarrow>
   \<forall>i<k. \<exists>z. attempt_size (pil j) (width j) (height j) (s * (4 / 5) ^ i) = Some z \<and>
             \<not> fits (max_bytes j) (s * (4 / 5) ^ i) z \<Longrightarrow>
   attempt_size (pil j) (width j) (height j) (s * (4 / 5) ^ k) = Some z \<Longrightarrow>
   fits (max_bytes j) (s * (4 / 5) ^ k) z \<Longrightarrow>
   attempt_loop j n s tr fs =
     deliver Accepted j
       (tr @ map (\<lambda>i. attempt_dims (width j) (height j) (s * (4 / 5) ^ i)) [0..<Suc k])
       (after_attempt j (s * (4 / 5) ^ k) fs)"
proof (induction k arbitrary: n s tr fs)
  case 0
  then obtain n' where n: "n = Suc n'" by (cases n) auto
  from 0 show ?case
    unfolding n by (simp add: attempt_accepted_step)
next
  case (Suc k)
  then obtain n' where n: "n = Suc n'" and kn: "k < n'" by (cases n) auto
  let ?x = "attempt_dims (width j) (height j) s"
  from Suc.prems(2) have "\<exists>z. attempt_size (pil j) (width j) (height j) (s * (4 / 5) ^ 0) = Some z \<and>
             \<not> fits (max_bytes j) (s * (4 / 5) ^ 0) z"
    by blast
  then obtain z0 where z0: "attempt_size (pil j) (width j) (height j) s = Some z0"
      "\<not> fits (max_bytes j) s z0"
    by auto
  have step: "attempt_loop j n s tr fs =
      attempt_loop j n' (s * (4 / 5)) (tr @ [?x]) (after_attempt j s fs)"
    unfolding n using z0 by (rule attempt_rejected_step)
  have rej: "\<forall>i<k. \<exists>z. attempt_size (pil j) (width j) (height j) (s * (4 / 5) * (4 / 5) ^ i) = Some z \<and>
             \<not> fits (max_bytes j) (s * (4 / 5) * (4 / 5) ^ i) z"
  proof (intro allI impI)
    fix i assume "i < k"
    then have "Suc i < Suc k" by simp
    with Suc.prems(2) show "\<exists>z. attempt_size (pil j) (width j) (height j) (s * (4 / 5) * (4 / 5) ^ i) = Some z \<and>
             \<not> fits (max_bytes j) (s * (4 / 5) * (4 / 5) ^ i) z"
      unfolding scale_step by blast
  qed
  have acc: "attempt_size (pil j) (width j) (height j) (s * (4 / 5) * (4 / 5) ^ k) = Some z"
      "fits (max_bytes j) (s * (4 / 5) * (4 / 5) ^ k) z"
    unfolding scale_step using Suc.prems(3,4) by simp_all
  have "attempt_loop j n' (s * (4 / 5)) (tr @ [?x]) (after_attempt j s fs) =
      deliver Accepted j
       ((tr @ [?x]) @ map (\<lambda>i. attempt_dims (width j) (height j) (s * (4 / 5) * (4 / 5) ^ i)) [0..<Suc k])
       (after_attempt j (s * (4 / 5) * (4 / 5) ^ k) (after_attempt j s fs))"
    using kn rej acc by (rule Suc.IH)
  also have "(tr @ [?x]) @ map (\<lambda>i. attempt_dims (width j) (height j) (s * (4 / 5) * (4 / 5) ^ i)) [0..<Suc k]
      = tr @ map (\<lambda>i. attempt_dims (width j) (height j) (s * (4 / 5) ^ i)) [0..<Suc (Suc k)]"
    unfolding scale_step by (simp add: map_upt_Suc del: upt_Suc power_Suc)
  finally show ?case
    using step unfolding scale_step after_attempt_twice by simp
qed

lemma attempt_loop_exhausted:
  "\<forall>i\<le>n. \<exists>z. attempt_size (pil j) (width j) (height j) (s * (4 / 5) ^ i) = Some z \<and>
             \<not> fits (max_bytes j) (s * (4 / 5) ^ i) z \<Longrightarrow>
   attempt_loop j (Suc n) s tr fs =
     deliver Fallback j
       (tr @ map (\<lambda>i. attempt_dims (width j) (height j) (s * (4 / 5) ^ i)) [0..<Suc n])
       (after_attempt j (s * (4 / 5) ^ n) fs)"
proof (induction n arbitrary: s tr fs)
  case 0
  then obtain z0 where "attempt_size (pil j) (width j) (height j) s = Some z0"
      "\<not> fits (max_bytes j) s z0"
    by auto
  then have "attempt_loop j (Suc 0) s tr fs =
      attempt_loop j 0 (s * (4 / 5)) (tr @ [attempt_dims (width j) (height j) s])
        (after_attempt j s fs)"
    by (rule attempt_rejected_step)
  then show ?case by simp
next
  case (Suc n)
  let ?x = "attempt_dims (width j) (height j) s"
  from Suc.prems have "\<exists>z. attempt_size (pil j) (width j) (height j) (s * (4 / 5) ^ 0) = Some z \<and>
             \<not> fits (max_bytes j) (s * (4 / 5) ^ 0) z"
    by blast
  then obtain z0 where z0: "attempt_size (pil j) (width j) (height j) s = Some z0"
      "\<not> fits (max_bytes j) s z0"
    by auto
  have step: "attempt_loop j (Suc (Suc n)) s tr fs =
      attempt_loop j (Suc n) (s * (4 / 5)) (tr @ [?x]) (after_attempt j s fs)"
    using z0 by (rule attempt_rejected_step)
  have rej: "\<forall>i\<le>n. \<exists>z. attempt_size (pil j) (width j) (height j) (s * (4 / 5) * (4 / 5) ^ i) = Some z \<and>
             \<not> fits (max_bytes j) (s * (4 / 5) * (4 / 5) ^ i) z"
  proof (intro allI impI)
    fix i assume "i \<le> n"
    then have "Suc i \<le> Suc n" by simp
    with Suc.prems show "\<exists>z. attempt_size (pil j) (width j) (height j) (s * (4 / 5) * (4 / 5) ^ i) = Some z \<and>
             \<not> fits (max_bytes j) (s * (4 / 5) * (4 / 5) ^ i) z"
      unfolding scale_step by blast
  qed
  have "attempt_loop j (Suc n) (s * (4 / 5)) (tr @ [?x]) (after_attempt j s fs) =
      deliver Fallback j
       ((tr @ [?x]) @ map (\<lambda>i. attempt_dims (width j) (height j) (s * (4 / 5) * (4 / 5) ^ i)) [0..<Suc n])
       (after_attempt j (s * (4 / 5) * (4 / 5) ^ n) (after_attempt j s fs))"
    using rej by (rule Suc.IH)
  also have "(tr @ [?x]) @ map (\<lambda>i. attempt_dims (width j) (height j) (s * (4 / 5) * (4 / 5) ^ i)) [0..<Suc n]
      = tr @ map (\<lambda>i. attempt_dims (width j) (height j) (s * (4 / 5) ^ i)) [0..<Suc (Suc n)]"
    unfolding scale_step by (simp add: map_upt_Suc del: upt_Suc power_Suc)
  finally show ?case
    using step unfolding scale_step after_attempt_twice by simp
qed

section \<open>Properties of the filename sanitization\<close>

text \<open>
  C6 (as the code has it). On the input \<^verbatim>\<open>C++ Dev / Team: A<B>\<close> the sanitizer returns
  \<^verbatim>\<open>C++_Dev__Team_AB\<close>: the plus signs are not in the forbidden class, and the two
  spaces left around the removed slash both become underscores, because whitespace is
  collapsed before the forbidden characters are removed.
\<close>

theorem sanitize_for_filename_example:
  "sanitize_for_filename ''C++ Dev / Team: A<B>'' = ''C++_Dev__Team_AB''"
  by (simp add: sanitize_for_filename_def py_strip_def strip_where_def is_space_def
      forbidden_chars_def)

text \<open>
  C6 (as the specification states it) fails: the result is not \<^verbatim>\<open>C_Dev_Team_AB\<close>.
\<close>

theorem sanitize_for_filename_counterexample:
  "sanitize_for_filename ''C++ Dev / Team: A<B>'' \<noteq> ''C_Dev_Team_AB''"
  by (simp add: sanitize_for_filename_def py_strip_def strip_where_def is_space_def
      forbidden_chars_def)

section \<open>Properties of the compressor\<close>

lemmas run_simps =
  compress_png_to_pdf_under_size_def compress_job_def example_pillow_def
  attempt_loop_numeral Let_def
  target_w_def target_h_def trunc_scaled_def min_width_def floor_rat_numeral
  deliver_def fs_move_def fs_remove_if_exists_def

lemma deliver_after_attempt:
  "deliver e j tr (after_attempt j s fs) =
     \<lparr>outcome = e (pdf_path j), resamples = tr,
      files = (((after_attempt j s fs)(tmp_pdf j := None))
                 (pdf_path j \<mapsto> Pdf (target_w (width j) s) (target_h (height j) s)))
                 (temp_jpeg j := None)\<rparr>"
  by (simp add: deliver_def fs_move_def fs_remove_if_exists_def after_attempt_def)

lemma scale_floor: "(4 / 5 :: rat) ^ 5 \<le> 2 / 5"
  by (simp add: power_divide)

lemma rejected_before_floor:
  assumes "\<forall>i<k. \<exists>z. attempt_size p w h ((4 / 5) ^ i) = Some z \<and> \<not> fits mb ((4 / 5) ^ i) z"
  shows "k < 6"
proof (rule ccontr)
  assume "\<not> k < 6"
  then have "5 < k" by simp
  with assms obtain z where "\<not> fits mb ((4 / 5) ^ 5) z" by blast
  then show False using scale_floor by (simp add: fits_def)
qed

lemmas hyp_simps =
  example_pillow_def attempt_size_def fits_def attempt_dims_def
  target_w_def target_h_def trunc_scaled_def min_width_def floor_rat_numeral

text \<open>
  C2. For a bitmap that decodes, the loop runs with the scales \<open>1, 4/5, (4/5)\<^sup>2, \<dots>\<close>, one
  per attempt. If the attempts before the \<open>k\<close>-th measure sizes that fail the test
  \<^verbatim>\<open>size <= max_bytes or scale <= 0.4\<close> and the \<open>k\<close>-th passes it, the function returns
  \<^verbatim>\<open>pdf_path\<close> from inside the loop after exactly \<open>k + 1\<close> attempts (at most 7; in fact
  \<open>k < 6\<close>), and the final PDF is the one of attempt \<open>k\<close>. A loop whose every iteration
  fails the test ends in the statements after it, which return \<^verbatim>\<open>pdf_path\<close> with the
  PDF of the last attempt and raise nothing.
\<close>

theorem compress_accepts_first_fitting_attempt:
  assumes dec: "decoded_size p = Some (w, h)"
  shows
    "((\<forall>i<k. \<exists>z. attempt_size p w h ((4 / 5) ^ i) = Some z \<and> \<not> fits mb ((4 / 5) ^ i) z) \<and>
      attempt_size p w h ((4 / 5) ^ k) = Some z \<and> fits mb ((4 / 5) ^ k) z \<longrightarrow>
        k < 6 \<and>
        outcome (compress_png_to_pdf_under_size p fs png pdf mb) = Accepted pdf \<and>
        resamples (compress_png_to_pdf_under_size p fs png pdf mb) =
          map (\<lambda>i. attempt_dims w h ((4 / 5) ^ i)) [0..<Suc k] \<and>
        length (resamples (compress_png_to_pdf_under_size p fs png pdf mb)) \<le> 7 \<and>
        (py_replace ''.png'' ''_tmp.jpg'' png \<noteq> pdf \<longrightarrow>
           files (compress_png_to_pdf_under_size p fs png pdf mb) pdf =
             Some (Pdf (target_w w ((4 / 5) ^ k)) (target_h h ((4 / 5) ^ k))))) \<and>
     ((\<forall>i\<le>n. \<exists>z. attempt_size p w h ((4 / 5) ^ i) = Some z \<and> \<not> fits mb ((4 / 5) ^ i) z) \<longrightarrow>
        outcome (attempt_loop (compress_job p png pdf mb w h) (Suc n) 1 [] fs) = Fallback pdf \<and>
        resamples (attempt_loop (compress_job p png pdf mb w h) (Suc n) 1 [] fs) =
          map (\<lambda>i. attempt_dims w h ((4 / 5) ^ i)) [0..<Suc n] \<and>
        (py_replace ''.png'' ''_tmp.jpg'' png \<noteq> pdf \<longrightarrow>
           files (attempt_loop (compress_job p png pdf mb w h) (Suc n) 1 [] fs) pdf =
             Some (Pdf (target_w w ((4 / 5) ^ n)) (target_h h ((4 / 5) ^ n)))))"
proof (intro conjI impI)
  let ?j = "compress_job p png pdf mb w h"
  have j: "pil ?j = p" "width ?j = w" "height ?j = h" "max_bytes ?j = mb" "pdf_path ?j = pdf"
      "temp_jpeg ?j = py_replace ''.png'' ''_tmp.jpg'' png" "tmp_pdf ?j = pdf @ ''.tmp''"
    by (simp_all add: compress_job_def)
  have r: "compress_png_to_pdf_under_size p fs png pdf mb = attempt_loop ?j 7 1 [] fs"
    using dec by (simp add: compress_png_to_pdf_under_size_def)
  {
    assume a: "(\<forall>i<k. \<exists>z. attempt_size p w h ((4 / 5) ^ i) = Some z \<and> \<not> fits mb ((4 / 5) ^ i) z) \<and>
      attempt_size p w h ((4 / 5) ^ k) = Some z \<and> fits mb ((4 / 5) ^ k) z"
    then have k: "k < 6" using rejected_before_floor by blast
    then have k7: "k < 7" by simp
    have "attempt_loop ?j 7 1 [] fs =
      deliver Accepted ?j
        ([] @ map (\<lambda>i. attempt_dims (width ?j) (height ?j) (1 * (4 / 5) ^ i)) [0..<Suc k])
        (after_attempt ?j (1 * (4 / 5) ^ k) fs)"
    proof (rule attempt_loop_first_accept [OF k7])
      show "\<forall>i<k. \<exists>z. attempt_size (pil ?j) (width ?j) (height ?j) (1 * (4 / 5) ^ i) = Some z \<and>
             \<not> fits (max_bytes ?j) (1 * (4 / 5) ^ i) z"
        using a j by simp
      show "attempt_size (pil ?j) (width ?j) (height ?j) (1 * (4 / 5) ^ k) = Some z"
        using a j by simp
      show "fits (max_bytes ?j) (1 * (4 / 5) ^ k) z"
        using a j by simp
    qed
    then have run: "compress_png_to_pdf_under_size p fs png pdf mb =
      deliver Accepted ?j (map (\<lambda>i. attempt_dims w h ((4 / 5) ^ i)) [0..<Suc k])
        (after_attempt ?j ((4 / 5) ^ k) fs)"
      using r j by simp
    show "k < 6" by (rule k)
    show "outcome (compress_png_to_pdf_under_size p fs png pdf mb) = Accepted pdf"
      unfolding run deliver_after_attempt using j by simp
    show res: "resamples (compress_png_to_pdf_under_size p fs png pdf mb) =
          map (\<lambda>i. attempt_dims w h ((4 / 5) ^ i)) [0..<Suc k]"
      unfolding run deliver_after_attempt by simp
    show "length (resamples (compress_png_to_pdf_under_size p fs png pdf mb)) \<le> 7"
      unfolding res using k by simp
    {
      assume "py_replace ''.png'' ''_tmp.jpg'' png \<noteq> pdf"
      then show "files (compress_png_to_pdf_under_size p fs png pdf mb) pdf =
             Some (Pdf (target_w w ((4 / 5) ^ k)) (target_h h ((4 / 5) ^ k)))"
        unfolding run deliver_after_attempt using j by simp
    }
  }
  {
    assume a: "\<forall>i\<le>n. \<exists>z. attempt_size p w h ((4 / 5) ^ i) = Some z \<and> \<not> fits mb ((4 / 5) ^ i) z"
    have "attempt_loop ?j (Suc n) 1 [] fs =
      deliver Fallback ?j
        ([] @ map (\<lambda>i. attempt_dims (width ?j) (height ?j) (1 * (4 / 5) ^ i)) [0..<Suc n])
        (after_attempt ?j (1 * (4 / 5) ^ n) fs)"
    proof (rule attempt_loop_exhausted)
      show "\<forall>i\<le>n. \<exists>z. attempt_size (pil ?j) (width ?j) (height ?j) (1 * (4 / 5) ^ i) = Some z \<and>
             \<not> fits (max_bytes ?j) (1 * (4 / 5) ^ i) z"
        using a j by simp
    qed
    then have run: "attempt_loop ?j (Suc n) 1 [] fs =
      deliver Fallback ?j (map (\<lambda>i. attempt_dims w h ((4 / 5) ^ i)) [0..<Suc n])
        (after_attempt ?j ((4 / 5) ^ n) fs)"
      using j by simp
    show "outcome (attempt_loop ?j (Suc n) 1 [] fs) = Fallback pdf"
      unfolding run deliver_after_attempt using j by simp
    show "resamples (attempt_loop ?j (Suc n) 1 [] fs) =
          map (\<lambda>i. attempt_dims w h ((4 / 5) ^ i)) [0..<Suc n]"
      unfolding run deliver_after_attempt by simp
    {
      assume "py_replace ''.png'' ''_tmp.jpg'' png \<noteq> pdf"
      then show "files (attempt_loop ?j (Suc n) 1 [] fs) pdf =
             Some (Pdf (target_w w ((4 / 5) ^ n)) (target_h h ((4 / 5) ^ n)))"
        unfolding run deliver_after_attempt using j by simp
    }
  }
qed


theorem compress_accepts_first_fitting_attempt_witness:
  "outcome (compress_png_to_pdf_under_size (example_pillow 1002 2000) shot_fs
      ''shot.png'' ''out.pdf'' 1500000) = Accepted ''out.pdf'' \<and>
   resamples (compress_png_to_pdf_under_size (example_pillow 1002 2000) shot_fs
      ''shot.png'' ''out.pdf'' 1500000) = [(1002, 2000), (801, 1600)] \<and>
   files (compress_png_to_pdf_under_size (example_pillow 1002 2000) shot_fs
      ''shot.png'' ''out.pdf'' 1500000) ''out.pdf'' = Some (Pdf 801 1600) \<and>
   outcome (attempt_loop (compress_job (example_pillow 1002 2000) ''shot.png'' ''out.pdf''
      1500000 1002 2000) (Suc 0) 1 [] shot_fs) = Fallback ''out.pdf'' \<and>
   resamples (attempt_loop (compress_job (example_pillow 1002 2000) ''shot.png'' ''out.pdf''
      1500000 1002 2000) (Suc 0) 1 [] shot_fs) = [(1002, 2000)]"
proof -
  have dec: "decoded_size (example_pillow 1002 2000) = Some (1002, 2000)"
    by (simp add: example_pillow_def)
  have first: "(\<forall>i<Suc 0. \<exists>z. attempt_size (example_pillow 1002 2000) 1002 2000 ((4 / 5) ^ i) = Some z \<and>
        \<not> fits 1500000 ((4 / 5) ^ i) z) \<and>
      attempt_size (example_pillow 1002 2000) 1002 2000 ((4 / 5) ^ Suc 0) = Some 1281600 \<and>
      fits 1500000 ((4 / 5) ^ Suc 0) 1281600"
    by (simp add: hyp_simps)
  have none: "\<forall>i\<le>0. \<exists>z. attempt_size (example_pillow 1002 2000) 1002 2000 ((4 / 5) ^ i) = Some z \<and>
        \<not> fits 1500000 ((4 / 5) ^ i) z"
    by (simp add: hyp_simps)
  have paths: "py_replace ''.png'' ''_tmp.jpg'' ''shot.png'' \<noteq> ''out.pdf''"
    by simp
  from compress_accepts_first_fitting_attempt
    [OF dec, of "Suc 0" 1500000 1281600 shot_fs "''shot.png''" "''out.pdf''" 0]
    first none paths
  show ?thesis
    by (simp add: hyp_simps)
qed

lemma attempt_loop_accepts_when_saves_succeed:
  "0 < m \<Longrightarrow> m \<le> n \<Longrightarrow> s * (4 / 5) ^ (m - 1) \<le> 2 / 5 \<Longrightarrow>
   \<forall>i<m. attempt_size (pil j) (width j) (height j) (s * (4 / 5) ^ i) \<noteq> None \<Longrightarrow>
   outcome (attempt_loop j n s tr fs) = Accepted (pdf_path j)"
proof (induction m arbitrary: n s tr fs)
  case 0
  then show ?case by simp
next
  case (Suc m)
  then obtain n' where n: "n = Suc n'" and mn: "m \<le> n'"
    by (cases n) auto
  from Suc.prems(4) have "attempt_size (pil j) (width j) (height j) (s * (4 / 5) ^ 0) \<noteq> None"
    by blast
  then obtain z where z: "attempt_size (pil j) (width j) (height j) s = Some z"
    by auto
  show ?case
  proof (cases "fits (max_bytes j) s z")
    case True
    with z show ?thesis
      unfolding n by (simp add: attempt_accepted_step deliver_after_attempt)
  next
    case False
    then have big: "\<not> s \<le> 2 / 5" by (simp add: fits_def)
    have "m \<noteq> 0"
    proof
      assume "m = 0"
      then have "s \<le> 2 / 5" using Suc.prems(3) by simp
      then show False using big by simp
    qed
    then obtain k where k: "m = Suc k" by (cases m) auto
    then have m: "0 < m" by simp
    have floor: "s * (4 / 5) * (4 / 5) ^ (m - 1) \<le> 2 / 5"
      using Suc.prems(3) k by (simp add: mult.assoc)
    have ok: "\<forall>i<m. attempt_size (pil j) (width j) (height j) (s * (4 / 5) * (4 / 5) ^ i) \<noteq> None"
    proof (intro allI impI)
      fix i assume "i < m"
      then have "Suc i < Suc m" by simp
      with Suc.prems(4) show "attempt_size (pil j) (width j) (height j) (s * (4 / 5) * (4 / 5) ^ i) \<noteq> None"
        unfolding scale_step by blast
    qed
    have "attempt_loop j n s tr fs =
        attempt_loop j n' (s * (4 / 5)) (tr @ [attempt_dims (width j) (height j) s])
          (after_attempt j s fs)"
      unfolding n using z False by (rule attempt_rejected_step)
    then show ?thesis
      using Suc.IH [OF m mn floor ok] by simp
  qed
qed

text \<open>
  C10. Whatever the bitmap, the library's behaviour, the paths and the budget, a call makes
  at most six attempts and never returns through the statements after the loop: the sixth
  scale is \<open>(4/5)\<^sup>5 = 0.32768\<close>, below the floor \<open>0.4\<close> of the acceptance test. When the
  bitmap decodes and the saves of the first six attempts do not raise, the call returns
  from inside the loop.
\<close>

theorem compress_never_reaches_fallback:
  "length (resamples (compress_png_to_pdf_under_size p fs png pdf mb)) \<le> 6 \<and>
   (\<forall>q. outcome (compress_png_to_pdf_under_size p fs png pdf mb) \<noteq> Fallback q) \<and>
   (decoded_size p = Some (w, h) \<and> (\<forall>i<6. attempt_size p w h ((4 / 5) ^ i) \<noteq> None) \<longrightarrow>
      outcome (compress_png_to_pdf_under_size p fs png pdf mb) = Accepted pdf)"
proof (intro conjI impI)
  show "length (resamples (compress_png_to_pdf_under_size p fs png pdf mb)) \<le> 6"
    and "\<forall>q. outcome (compress_png_to_pdf_under_size p fs png pdf mb) \<noteq> Fallback q"
  proof -
    have "length (resamples (compress_png_to_pdf_under_size p fs png pdf mb)) \<le> 6 \<and>
      (\<forall>q. outcome (compress_png_to_pdf_under_size p fs png pdf mb) \<noteq> Fallback q)"
    proof (cases "decoded_size p")
      case None
      then show ?thesis
        by (simp add: compress_png_to_pdf_under_size_def)
    next
      case (Some d)
      obtain w' h' where d: "d = (w', h')" by (cases d)
      have floor: "(1::rat) * (4 / 5) ^ (6 - 1) \<le> 2 / 5"
        by (simp add: power_divide)
      have "length (resamples (attempt_loop (compress_job p png pdf mb w' h') 7 1 [] fs))
          \<le> length ([] :: (nat \<times> nat) list) + 6 \<and>
       (\<forall>q. outcome (attempt_loop (compress_job p png pdf mb w' h') 7 1 [] fs) \<noteq> Fallback q)"
        by (rule attempt_loop_floor [OF _ _ floor]) simp_all
      then show ?thesis
        using Some d by (simp add: compress_png_to_pdf_under_size_def)
    qed
    then show "length (resamples (compress_png_to_pdf_under_size p fs png pdf mb)) \<le> 6"
      and "\<forall>q. outcome (compress_png_to_pdf_under_size p fs png pdf mb) \<noteq> Fallback q"
      by simp_all
  qed
next
  assume a: "decoded_size p = Some (w, h) \<and> (\<forall>i<6. attempt_size p w h ((4 / 5) ^ i) \<noteq> None)"
  let ?j = "compress_job p png pdf mb w h"
  have j: "pil ?j = p" "width ?j = w" "height ?j = h" "pdf_path ?j = pdf"
    by (simp_all add: compress_job_def)
  have floor: "(1::rat) * (4 / 5) ^ (6 - 1) \<le> 2 / 5"
    by (simp add: power_divide)
  have ok: "\<forall>i<6. attempt_size (pil ?j) (width ?j) (height ?j) (1 * (4 / 5) ^ i) \<noteq> None"
    using a j by simp
  have "outcome (attempt_loop ?j 7 1 [] fs) = Accepted (pdf_path ?j)"
    by (rule attempt_loop_accepts_when_saves_succeed [OF _ _ floor ok]) simp_all
  then show "outcome (compress_png_to_pdf_under_size p fs png pdf mb) = Accepted pdf"
    using a j by (simp add: compress_png_to_pdf_under_size_def)
qed

theorem compress_never_reaches_fallback_witness:
  "length (resamples (compress_png_to_pdf_under_size (example_pillow 1000 2000) shot_fs
      ''shot.png'' ''out.pdf'' 10)) \<le> 6 \<and>
   outcome (compress_png_to_pdf_under_size (example_pillow 1000 2000) shot_fs
      ''shot.png'' ''out.pdf'' 10) = Accepted ''out.pdf''"
proof -
  have "decoded_size (example_pillow 1000 2000) = Some (1000, 2000) \<and>
      (\<forall>i<6. attempt_size (example_pillow 1000 2000) 1000 2000 ((4 / 5) ^ i) \<noteq> None)"
    by (simp add: example_pillow_def attempt_size_def)
  with compress_never_reaches_fallback
    [of "example_pillow 1000 2000" shot_fs "''shot.png''" "''out.pdf''" 10 1000 2000]
  show ?thesis by simp
qed

lemma deliver_frame:
  "x \<noteq> temp_jpeg j \<Longrightarrow> x \<noteq> tmp_pdf j \<Longrightarrow> x \<noteq> pdf_path j \<Longrightarrow>
   files (deliver e j tr fs) x = fs x"
  by (simp add: deliver_def fs_move_def fs_remove_if_exists_def split: option.split)

lemma deliver_clean:
  assumes "tmp_pdf j \<noteq> pdf_path j" and "returned (outcome (deliver e j tr fs))"
  shows "files (deliver e j tr fs) (temp_jpeg j) = None \<and>
         files (deliver e j tr fs) (tmp_pdf j) = None \<and>
         (temp_jpeg j \<noteq> pdf_path j \<longrightarrow> files (deliver e j tr fs) (pdf_path j) = fs (tmp_pdf j)
            \<and> fs (tmp_pdf j) \<noteq> None)"
proof (cases "fs (tmp_pdf j)")
  case None
  then have "outcome (deliver e j tr fs) = Raised MoveFailed"
    by (simp add: deliver_def fs_move_def)
  with assms(2) show ?thesis by simp
next
  case (Some a)
  with assms(1) show ?thesis
    by (simp add: deliver_def fs_move_def fs_remove_if_exists_def)
qed

lemma attempt_loop_frame:
  "x \<noteq> temp_jpeg j \<Longrightarrow> x \<noteq> tmp_pdf j \<Longrightarrow> x \<noteq> pdf_path j \<Longrightarrow>
   files (attempt_loop j n s tr fs) x = fs x"
proof (induction n arbitrary: s tr fs)
  case 0
  then show ?case by (simp add: deliver_frame)
next
  case (Suc n)
  show ?case
  proof (cases rule: attempt_step [of j n s tr fs])
    case jpeg_raises
    then show ?thesis by simp
  next
    case pdf_raises
    then show ?thesis using Suc.prems by simp
  next
    case accepted
    then show ?thesis using Suc.prems by (simp add: deliver_frame after_attempt_def)
  next
    case rejected
    then show ?thesis using Suc.IH [OF Suc.prems] Suc.prems by (simp add: after_attempt_def)
  qed
qed

lemma attempt_loop_clean:
  "tmp_pdf j \<noteq> pdf_path j \<Longrightarrow> returned (outcome (attempt_loop j n s tr fs)) \<Longrightarrow>
   files (attempt_loop j n s tr fs) (temp_jpeg j) = None \<and>
   files (attempt_loop j n s tr fs) (tmp_pdf j) = None \<and>
   (temp_jpeg j \<noteq> pdf_path j \<longrightarrow>
      (\<exists>a. files (attempt_loop j n s tr fs) (pdf_path j) = Some a))"
proof (induction n arbitrary: s tr fs)
  case 0
  then show ?case using deliver_clean [of j Fallback tr fs] by auto
next
  case (Suc n)
  show ?case
  proof (cases rule: attempt_step [of j n s tr fs])
    case jpeg_raises
    then show ?thesis using Suc.prems by simp
  next
    case pdf_raises
    then show ?thesis using Suc.prems by simp
  next
    case accepted
    then show ?thesis
      using Suc.prems deliver_clean [of j Accepted "tr @ [attempt_dims (width j) (height j) s]"
          "after_attempt j s fs"]
      by auto
  next
    case rejected
    then show ?thesis using Suc.IH Suc.prems by simp
  qed
qed

lemma py_find_Nil: "old \<noteq> [] \<Longrightarrow> py_find old [] = None"
  by simp

lemma py_replace_prefix:
  "old \<noteq> [] \<Longrightarrow> prefix old (c # cs) \<Longrightarrow>
   py_replace old new (c # cs) = new @ py_replace old new (drop (length old) (c # cs))"
  by simp

lemma py_replace_no_prefix:
  "\<not> (old \<noteq> [] \<and> prefix old (c # cs)) \<Longrightarrow>
   py_replace old new (c # cs) = c # py_replace old new cs"
  by auto

lemma py_replace_length_ge:
  "length old \<le> length new \<Longrightarrow> length s \<le> length (py_replace old new s)"
proof (induction old new s rule: py_replace.induct)
  case (1 old new)
  then show ?case by simp
next
  case (2 old new c cs)
  show ?case
  proof (cases "old \<noteq> [] \<and> prefix old (c # cs)")
    case True
    define d where "d = drop (length old) (c # cs)"
    have fit: "length old \<le> length (c # cs)"
      using True prefix_length_le by blast
    have "length d \<le> length (py_replace old new d)"
      unfolding d_def using 2 True by blast
    moreover have "length d = length (c # cs) - length old"
      unfolding d_def by simp
    moreover have "py_replace old new (c # cs) = new @ py_replace old new d"
      unfolding d_def by (rule py_replace_prefix) (use True in simp_all)
    ultimately show ?thesis
      using fit 2(3) by simp
  next
    case False
    then have "py_replace old new (c # cs) = c # py_replace old new cs"
      by (rule py_replace_no_prefix)
    moreover have "length cs \<le> length (py_replace old new cs)"
      using 2 False by blast
    ultimately show ?thesis by simp
  qed
qed

lemma py_replace_length_gt:
  "length old < length new \<Longrightarrow> old \<noteq> [] \<Longrightarrow> py_in old s \<Longrightarrow>
   length s < length (py_replace old new s)"
proof (induction s)
  case Nil
  then show ?case by (simp add: py_in_def)
next
  case (Cons c cs)
  show ?case
  proof (cases "prefix old (c # cs)")
    case True
    define d where "d = drop (length old) (c # cs)"
    have fit: "length old \<le> length (c # cs)"
      using True prefix_length_le by blast
    have "length d \<le> length (py_replace old new d)"
      using Cons.prems(1) by (simp add: py_replace_length_ge)
    moreover have "length d = length (c # cs) - length old"
      unfolding d_def by simp
    moreover have "py_replace old new (c # cs) = new @ py_replace old new d"
      unfolding d_def by (rule py_replace_prefix) (use True Cons.prems(2) in simp_all)
    ultimately show ?thesis
      using fit Cons.prems(1) by simp
  next
    case False
    then have "py_in old cs"
      using Cons.prems(3) by (auto simp: py_in_def)
    then have "length cs < length (py_replace old new cs)"
      using Cons.IH Cons.prems by blast
    moreover have "py_replace old new (c # cs) = c # py_replace old new cs"
      by (rule py_replace_no_prefix) (use False in simp)
    ultimately show ?thesis by simp
  qed
qed

lemma temp_jpeg_differs:
  "py_in ''.png'' png \<Longrightarrow> py_replace ''.png'' ''_tmp.jpg'' png \<noteq> png"
proof
  assume "py_in ''.png'' png" and eq: "py_replace ''.png'' ''_tmp.jpg'' png = png"
  then have "length png < length (py_replace ''.png'' ''_tmp.jpg'' png)"
    by (intro py_replace_length_gt) simp_all
  with eq show False by simp
qed

lemma outcome_deliver:
  "outcome (deliver e j tr fs) = Raised MoveFailed \<or> outcome (deliver e j tr fs) = e (pdf_path j)"
  by (simp add: deliver_def split: option.split)

lemma after_attempt_exists:
  "after_attempt j s fs (temp_jpeg j) \<noteq> None \<and> after_attempt j s fs (tmp_pdf j) \<noteq> None"
  by (simp add: after_attempt_def)

lemma pdf_raise_leaves_jpeg:
  "outcome (attempt_loop j n s tr fs) = Raised PdfSaveFailed \<Longrightarrow>
   \<exists>tw th. files (attempt_loop j n s tr fs) (temp_jpeg j) = Some (Jpeg tw th)"
proof (induction n arbitrary: s tr fs)
  case 0
  then show ?case using outcome_deliver [of Fallback j tr fs] by auto
next
  case (Suc n)
  show ?case
  proof (cases rule: attempt_step [of j n s tr fs])
    case jpeg_raises
    then show ?thesis using Suc.prems by simp
  next
    case pdf_raises
    then show ?thesis by simp
  next
    case accepted
    then show ?thesis
      using Suc.prems outcome_deliver [of Accepted j "tr @ [attempt_dims (width j) (height j) s]"
          "after_attempt j s fs"]
      by auto
  next
    case rejected
    then show ?thesis using Suc.IH Suc.prems by simp
  qed
qed

lemma jpeg_raise_leaves_both:
  "fs (temp_jpeg j) \<noteq> None \<Longrightarrow> fs (tmp_pdf j) \<noteq> None \<Longrightarrow>
   outcome (attempt_loop j n s tr fs) = Raised JpegSaveFailed \<Longrightarrow>
   files (attempt_loop j n s tr fs) (temp_jpeg j) \<noteq> None \<and>
   files (attempt_loop j n s tr fs) (tmp_pdf j) \<noteq> None"
proof (induction n arbitrary: s tr fs)
  case 0
  then show ?case using outcome_deliver [of Fallback j tr fs] by auto
next
  case (Suc n)
  show ?case
  proof (cases rule: attempt_step [of j n s tr fs])
    case jpeg_raises
    then show ?thesis using Suc.prems by simp
  next
    case pdf_raises
    then show ?thesis using Suc.prems by simp
  next
    case accepted
    then show ?thesis
      using Suc.prems outcome_deliver [of Accepted j "tr @ [attempt_dims (width j) (height j) s]"
          "after_attempt j s fs"]
      by auto
  next
    case rejected
    have "outcome (attempt_loop j n (s * (4 / 5)) (tr @ [attempt_dims (width j) (height j) s])
        (after_attempt j s fs)) = Raised JpegSaveFailed"
      using rejected(2) Suc.prems(3) by simp
    with after_attempt_exists [of j s fs] show ?thesis
      unfolding rejected(2) using Suc.IH by blast
  qed
qed

text \<open>
  C7 (as the code has it). When a call returns, the temporary JPEG and the scratch
  \<^verbatim>\<open>.tmp\<close> PDF are gone and the final PDF exists (provided the temporary JPEG's path is
  not the final path itself); the same holds for the loop run with any number of
  iterations, which covers the statements after the loop as well as the return inside it.
  Whatever the outcome, a file at a path other than those three is as it was before the
  call; the original PNG is such a file when \<^verbatim>\<open>png_path\<close> contains \<^verbatim>\<open>.png\<close> and is neither
  \<^verbatim>\<open>pdf_path\<close> nor \<^verbatim>\<open>pdf_path + ".tmp"\<close>. Nothing is removed when the call raises: if saving
  the PDF raises, the temporary JPEG is on disk, and if saving the JPEG raises after an
  earlier attempt, both temporary files are.
\<close>

theorem compress_cleanup:
  fixes p fs png pdf mb w h n
  defines "r \<equiv> compress_png_to_pdf_under_size p fs png pdf mb"
    and "l \<equiv> attempt_loop (compress_job p png pdf mb w h) n 1 [] fs"
    and "temp \<equiv> py_replace ''.png'' ''_tmp.jpg'' png"
    and "tmp \<equiv> pdf @ ''.tmp''"
  shows
    "(returned (outcome r) \<longrightarrow>
        files r temp = None \<and> files r tmp = None \<and>
        (temp \<noteq> pdf \<longrightarrow> (\<exists>a. files r pdf = Some a))) \<and>
     (returned (outcome l) \<longrightarrow>
        files l temp = None \<and> files l tmp = None \<and>
        (temp \<noteq> pdf \<longrightarrow> (\<exists>a. files l pdf = Some a))) \<and>
     (\<forall>x. x \<noteq> temp \<and> x \<noteq> tmp \<and> x \<noteq> pdf \<longrightarrow> files r x = fs x \<and> files l x = fs x) \<and>
     (py_in ''.png'' png \<and> png \<noteq> pdf \<and> png \<noteq> tmp \<longrightarrow>
        files r png = fs png \<and> files l png = fs png) \<and>
     (outcome r = Raised PdfSaveFailed \<longrightarrow> (\<exists>tw th. files r temp = Some (Jpeg tw th))) \<and>
     (outcome r = Raised JpegSaveFailed \<and> 1 < length (resamples r) \<longrightarrow>
        files r temp \<noteq> None \<and> files r tmp \<noteq> None)"
proof -
  have paths: "\<And>w' h'. pdf_path (compress_job p png pdf mb w' h') = pdf"
      "\<And>w' h'. temp_jpeg (compress_job p png pdf mb w' h') = temp"
      "\<And>w' h'. tmp_pdf (compress_job p png pdf mb w' h') = tmp"
    by (simp_all add: compress_job_def temp_def tmp_def)
  have distinct: "tmp \<noteq> pdf"
    by (simp add: tmp_def)
  have loop_clean: "returned (outcome (attempt_loop (compress_job p png pdf mb w' h') m s tr fs)) \<longrightarrow>
        files (attempt_loop (compress_job p png pdf mb w' h') m s tr fs) temp = None \<and>
        files (attempt_loop (compress_job p png pdf mb w' h') m s tr fs) tmp = None \<and>
        (temp \<noteq> pdf \<longrightarrow>
           (\<exists>a. files (attempt_loop (compress_job p png pdf mb w' h') m s tr fs) pdf = Some a))"
    for w' h' m s tr
    using attempt_loop_clean [of "compress_job p png pdf mb w' h'" m s tr fs] distinct
    unfolding paths by blast
  have loop_frame: "x \<noteq> temp \<and> x \<noteq> tmp \<and> x \<noteq> pdf \<longrightarrow>
        files (attempt_loop (compress_job p png pdf mb w' h') m s tr fs) x = fs x"
    for x w' h' m s tr
    using attempt_loop_frame [of x "compress_job p png pdf mb w' h'" m s tr fs]
    unfolding paths by blast
  have r_cases: "(decoded_size p = None \<and> r = \<lparr>outcome = Raised OpenFailed, resamples = [], files = fs\<rparr>) \<or>
      (\<exists>w' h'. r = attempt_loop (compress_job p png pdf mb w' h') 7 1 [] fs)"
    unfolding r_def compress_png_to_pdf_under_size_def by (cases "decoded_size p") auto
  have c1: "returned (outcome r) \<longrightarrow>
        files r temp = None \<and> files r tmp = None \<and>
        (temp \<noteq> pdf \<longrightarrow> (\<exists>a. files r pdf = Some a))"
    using r_cases loop_clean by auto
  have c2: "returned (outcome l) \<longrightarrow>
        files l temp = None \<and> files l tmp = None \<and>
        (temp \<noteq> pdf \<longrightarrow> (\<exists>a. files l pdf = Some a))"
    unfolding l_def by (rule loop_clean)
  have c3: "\<forall>x. x \<noteq> temp \<and> x \<noteq> tmp \<and> x \<noteq> pdf \<longrightarrow> files r x = fs x \<and> files l x = fs x"
    using r_cases loop_frame unfolding l_def by auto
  have c4: "py_in ''.png'' png \<and> png \<noteq> pdf \<and> png \<noteq> tmp \<longrightarrow>
        files r png = fs png \<and> files l png = fs png"
    using c3 temp_jpeg_differs [of png] unfolding temp_def by metis
  have c5: "outcome r = Raised PdfSaveFailed \<longrightarrow> (\<exists>tw th. files r temp = Some (Jpeg tw th))"
  proof
    assume o: "outcome r = Raised PdfSaveFailed"
    with r_cases obtain w' h' where
      rr: "r = attempt_loop (compress_job p png pdf mb w' h') 7 1 [] fs"
      by auto
    from pdf_raise_leaves_jpeg [of "compress_job p png pdf mb w' h'" 7 1 "[]" fs] o
    show "\<exists>tw th. files r temp = Some (Jpeg tw th)"
      unfolding rr paths by simp
  qed
  have c6: "outcome r = Raised JpegSaveFailed \<and> 1 < length (resamples r) \<longrightarrow>
        files r temp \<noteq> None \<and> files r tmp \<noteq> None"
  proof
    assume o: "outcome r = Raised JpegSaveFailed \<and> 1 < length (resamples r)"
    with r_cases obtain w' h' where
      rr: "r = attempt_loop (compress_job p png pdf mb w' h') 7 1 [] fs"
      by auto
    let ?j = "compress_job p png pdf mb w' h'"
    have seven: "(7::nat) = Suc 6" by simp
    show "files r temp \<noteq> None \<and> files r tmp \<noteq> None"
    proof (cases rule: attempt_step [of ?j 6 1 "[]" fs])
      case jpeg_raises
      then show ?thesis using o unfolding rr seven by simp
    next
      case pdf_raises
      then show ?thesis using o unfolding rr seven by simp
    next
      case accepted
      then show ?thesis
        using o outcome_deliver [of Accepted ?j "[] @ [attempt_dims (width ?j) (height ?j) 1]"
            "after_attempt ?j 1 fs"]
        unfolding rr seven by auto
    next
      case rejected
      have "outcome (attempt_loop ?j 6 (1 * (4 / 5)) ([] @ [attempt_dims (width ?j) (height ?j) 1])
          (after_attempt ?j 1 fs)) = Raised JpegSaveFailed"
        using rejected(2) o unfolding rr seven by simp
      with after_attempt_exists [of ?j 1 fs]
      have "files (attempt_loop ?j 6 (1 * (4 / 5)) ([] @ [attempt_dims (width ?j) (height ?j) 1])
          (after_attempt ?j 1 fs)) (temp_jpeg ?j) \<noteq> None \<and>
        files (attempt_loop ?j 6 (1 * (4 / 5)) ([] @ [attempt_dims (width ?j) (height ?j) 1])
          (after_attempt ?j 1 fs)) (tmp_pdf ?j) \<noteq> None"
        using jpeg_raise_leaves_both by blast
      then show ?thesis
        unfolding rr seven rejected(2) paths .
    qed
  qed
  from c1 c2 c3 c4 c5 c6 show ?thesis by blast
qed

theorem compress_cleanup_witness:
  "files (compress_png_to_pdf_under_size (example_pillow 1002 2000) shot_fs
      ''shot.png'' ''out.pdf'' 1500000) ''shot_tmp.jpg'' = None \<and>
   files (compress_png_to_pdf_under_size (example_pillow 1002 2000) shot_fs
      ''shot.png'' ''out.pdf'' 1500000) ''out.pdf.tmp'' = None \<and>
   (\<exists>a. files (compress_png_to_pdf_under_size (example_pillow 1002 2000) shot_fs
      ''shot.png'' ''out.pdf'' 1500000) ''out.pdf'' = Some a) \<and>
   files (compress_png_to_pdf_under_size (example_pillow 1002 2000) shot_fs
      ''shot.png'' ''out.pdf'' 1500000) ''shot.png'' = Some Other \<and>
   files (attempt_loop (compress_job (example_pillow 1002 2000) ''shot.png'' ''out.pdf''
      1500000 1002 2000) (Suc 0) 1 [] shot_fs) ''shot_tmp.jpg'' = None \<and>
   (\<exists>tw th. files (compress_png_to_pdf_under_size pdf_failing_pillow shot_fs
      ''shot.png'' ''out.pdf'' 1500000) ''shot_tmp.jpg'' = Some (Jpeg tw th)) \<and>
   files (compress_png_to_pdf_under_size jpeg_failing_pillow shot_fs
      ''shot.png'' ''out.pdf'' 1500000) ''shot_tmp.jpg'' \<noteq> None \<and>
   files (compress_png_to_pdf_under_size jpeg_failing_pillow shot_fs
      ''shot.png'' ''out.pdf'' 1500000) ''out.pdf.tmp'' \<noteq> None"
proof -
  have temp: "py_replace ''.png'' ''_tmp.jpg'' ''shot.png'' = ''shot_tmp.jpg''"
    by simp
  have ret: "returned (outcome (compress_png_to_pdf_under_size (example_pillow 1002 2000) shot_fs
      ''shot.png'' ''out.pdf'' 1500000))"
    by (simp add: run_simps shot_fs_def)
  have ret_loop: "returned (outcome (attempt_loop (compress_job (example_pillow 1002 2000)
      ''shot.png'' ''out.pdf'' 1500000 1002 2000) (Suc 0) 1 [] shot_fs))"
    by (simp add: attempt_loop.simps(2) run_simps shot_fs_def)
  have png: "py_in ''.png'' ''shot.png'' \<and> ''shot.png'' \<noteq> ''out.pdf'' \<and>
      ''shot.png'' \<noteq> ''out.pdf'' @ ''.tmp''"
    by (simp add: py_in_def)
  have pdf_raises: "outcome (compress_png_to_pdf_under_size pdf_failing_pillow shot_fs
      ''shot.png'' ''out.pdf'' 1500000) = Raised PdfSaveFailed"
    by (simp add: run_simps pdf_failing_pillow_def shot_fs_def)
  have jpeg_raises: "outcome (compress_png_to_pdf_under_size jpeg_failing_pillow shot_fs
      ''shot.png'' ''out.pdf'' 1500000) = Raised JpegSaveFailed \<and>
    1 < length (resamples (compress_png_to_pdf_under_size jpeg_failing_pillow shot_fs
      ''shot.png'' ''out.pdf'' 1500000))"
    by (simp add: run_simps jpeg_failing_pillow_def shot_fs_def)
  have start: "shot_fs ''shot.png'' = Some Other"
    by (simp add: shot_fs_def)
  from compress_cleanup [where p = "example_pillow 1002 2000" and fs = shot_fs
      and png = "''shot.png''" and pdf = "''out.pdf''" and mb = 1500000
      and w = 1002 and h = 2000 and n = "Suc 0"]
    compress_cleanup [where p = pdf_failing_pillow and fs = shot_fs
      and png = "''shot.png''" and pdf = "''out.pdf''" and mb = 1500000]
    compress_cleanup [where p = jpeg_failing_pillow and fs = shot_fs
      and png = "''shot.png''" and pdf = "''out.pdf''" and mb = 1500000]
    ret ret_loop png pdf_raises jpeg_raises start
  show ?thesis
    unfolding temp by simp
qed

text \<open>
  C7 (as the specification states it) fails on the error paths: the function has no
  \<^verbatim>\<open>try/finally\<close>. When saving the PDF raises on the first attempt, the call raises and
  the temporary JPEG written just before stays on disk.
\<close>

theorem compress_leaks_jpeg_when_pdf_save_raises:
  "outcome (compress_png_to_pdf_under_size pdf_failing_pillow shot_fs
      ''shot.png'' ''out.pdf'' 5242880) = Raised PdfSaveFailed \<and>
   files (compress_png_to_pdf_under_size pdf_failing_pillow shot_fs
      ''shot.png'' ''out.pdf'' 5242880) ''shot_tmp.jpg'' = Some (Jpeg 1000 2000)"
  by (simp add: run_simps pdf_failing_pillow_def shot_fs_def)

text \<open>
  The condition on \<^verbatim>\<open>png_path\<close> is needed. For a path that does not contain \<^verbatim>\<open>.png\<close> the
  \<^verbatim>\<open>replace\<close> changes nothing, the temporary JPEG is written over the screenshot itself, and
  a call that returns has removed it.
\<close>

lemma compress_removes_screenshot_without_suffix:
  "py_replace ''.png'' ''_tmp.jpg'' ''shot'' = ''shot'' \<and>
   returned (outcome (compress_png_to_pdf_under_size (example_pillow 1002 2000)
      (Map.empty(''shot'' \<mapsto> Other)) ''shot'' ''out.pdf'' 1500000)) \<and>
   files (compress_png_to_pdf_under_size (example_pillow 1002 2000)
      (Map.empty(''shot'' \<mapsto> Other)) ''shot'' ''out.pdf'' 1500000) ''shot'' = None"
  by (simp add: run_simps)

lemma trunc_scaled_le: "0 \<le> s \<Longrightarrow> s \<le> 1 \<Longrightarrow> trunc_scaled n s \<le> n"
proof -
  assume s: "0 \<le> s" "s \<le> 1"
  have "of_nat n * s \<le> (of_nat n :: rat)"
    using s by (simp add: mult_left_le)
  then have "\<lfloor>of_nat n * s\<rfloor> \<le> \<lfloor>(of_nat n :: rat)\<rfloor>"
    by (rule floor_mono)
  then show ?thesis
    by (simp add: trunc_scaled_def)
qed

lemma resamples_compress:
  assumes "decoded_size p = Some (w, h)"
  shows "\<exists>m\<le>7. resamples (compress_png_to_pdf_under_size p fs png pdf mb) =
      map (\<lambda>i. attempt_dims w h ((4 / 5) ^ i)) [0..<m]"
proof -
  let ?j = "compress_job p png pdf mb w h"
  have j: "width ?j = w" "height ?j = h"
    by (simp_all add: compress_job_def)
  from resamples_attempt_loop [of 7 ?j 1 "[]" fs] show ?thesis
    using assms j by (simp add: compress_png_to_pdf_under_size_def)
qed

text \<open>
  C5 (as the code has it). On attempt \<open>i\<close> (counted from 0) of a call on a bitmap of size
  \<open>w \<times> h\<close>, the target width is \<^verbatim>\<open>max(800, int(w * scale))\<close> with \<open>scale = (4/5)\<^sup>i\<close>,
  the product being truncated, not rounded. The width is never below 800, a bitmap not wider
  than 800 gets the width 800 on every attempt, and on an attempt whose width is not
  clamped both sides are the original ones scaled by the same factor and truncated.
\<close>

theorem resample_target_sizes:
  assumes dec: "decoded_size p = Some (w, h)"
    and i: "i < length (resamples (compress_png_to_pdf_under_size p fs png pdf mb))"
  shows "fst (resamples (compress_png_to_pdf_under_size p fs png pdf mb) ! i) =
           max 800 (nat \<lfloor>of_nat w * (4 / 5 :: rat) ^ i\<rfloor>) \<and>
         800 \<le> fst (resamples (compress_png_to_pdf_under_size p fs png pdf mb) ! i) \<and>
         (w \<le> 800 \<longrightarrow> fst (resamples (compress_png_to_pdf_under_size p fs png pdf mb) ! i) = 800) \<and>
         (800 \<le> nat \<lfloor>of_nat w * (4 / 5 :: rat) ^ i\<rfloor> \<longrightarrow>
            resamples (compress_png_to_pdf_under_size p fs png pdf mb) ! i =
              (nat \<lfloor>of_nat w * (4 / 5 :: rat) ^ i\<rfloor>, nat \<lfloor>of_nat h * (4 / 5 :: rat) ^ i\<rfloor>))"
proof -
  from resamples_compress [OF dec, of fs png pdf mb] obtain m where
    m: "resamples (compress_png_to_pdf_under_size p fs png pdf mb) =
      map (\<lambda>i. attempt_dims w h ((4 / 5) ^ i)) [0..<m]"
    by blast
  with i have "i < m" by simp
  then have nth: "resamples (compress_png_to_pdf_under_size p fs png pdf mb) ! i =
      attempt_dims w h ((4 / 5) ^ i)"
    unfolding m by simp
  have "(0::rat) \<le> (4 / 5) ^ i" "(4 / 5 :: rat) ^ i \<le> 1"
    by (simp_all add: power_le_one)
  then have le: "trunc_scaled w ((4 / 5) ^ i) \<le> w"
    by (rule trunc_scaled_le)
  show ?thesis
    unfolding nth using le
    by (auto simp: attempt_dims_def target_w_def target_h_def min_width_def trunc_scaled_def)
qed

theorem resample_target_sizes_witness:
  "fst (resamples (compress_png_to_pdf_under_size (example_pillow 1002 2000) shot_fs
      ''shot.png'' ''out.pdf'' 1500000) ! 1) = 801 \<and>
   resamples (compress_png_to_pdf_under_size (example_pillow 1002 2000) shot_fs
      ''shot.png'' ''out.pdf'' 1500000) ! 1 = (801, 1600) \<and>
   fst (resamples (compress_png_to_pdf_under_size (example_pillow 640 480) shot_fs
      ''shot.png'' ''out.pdf'' 1500000) ! 0) = 800"
proof -
  have d1: "decoded_size (example_pillow 1002 2000) = Some (1002, 2000)"
    and d2: "decoded_size (example_pillow 640 480) = Some (640, 480)"
    by (simp_all add: example_pillow_def)
  have l1: "1 < length (resamples (compress_png_to_pdf_under_size (example_pillow 1002 2000)
      shot_fs ''shot.png'' ''out.pdf'' 1500000))"
    by (simp add: run_simps)
  have l2: "0 < length (resamples (compress_png_to_pdf_under_size (example_pillow 640 480)
      shot_fs ''shot.png'' ''out.pdf'' 1500000))"
    by (simp add: run_simps)
  from resample_target_sizes [OF d1 l1] resample_target_sizes [OF d2 l2]
  show ?thesis
    by (simp add: floor_rat_numeral)
qed

text \<open>
  C5 (as the specification states it) fails twice. For a bitmap 1002 wide the second
  attempt resizes to width 801, where rounding \<open>801.6\<close> gives 802. For a bitmap of
  \<open>1000 \<times> 2000\<close> the third attempt resizes to \<open>800 \<times> 1280\<close>: the width is clamped and the
  height is not, so the sides are no longer in the ratio \<open>1000 : 2000\<close>.
\<close>

theorem resample_target_sizes_counterexample:
  "fst (resamples (compress_png_to_pdf_under_size (example_pillow 1002 2000) shot_fs
      ''shot.png'' ''out.pdf'' 1500000) ! 1)
     \<noteq> max 800 (nat (round (1002 * (4 / 5 :: rat)))) \<and>
   fst (resamples (compress_png_to_pdf_under_size (example_pillow 1000 2000) shot_fs
      ''shot.png'' ''out.pdf'' 1100000) ! 2) * 2000
     \<noteq> snd (resamples (compress_png_to_pdf_under_size (example_pillow 1000 2000) shot_fs
      ''shot.png'' ''out.pdf'' 1100000) ! 2) * 1000"
  by (simp add: run_simps round_def)

lemma trunc_scaled_mono: "s' \<le> s \<Longrightarrow> trunc_scaled n s' \<le> trunc_scaled n s"
proof -
  assume "s' \<le> s"
  then have "of_nat n * s' \<le> (of_nat n :: rat) * s"
    by (simp add: mult_left_mono)
  then have "\<lfloor>of_nat n * s'\<rfloor> \<le> \<lfloor>(of_nat n :: rat) * s\<rfloor>"
    by (rule floor_mono)
  then show ?thesis
    by (simp add: trunc_scaled_def)
qed

lemma attempt_dims_shrink:
  "fst (attempt_dims w h ((4 / 5) ^ Suc i)) \<le> fst (attempt_dims w h ((4 / 5) ^ i)) \<and>
   snd (attempt_dims w h ((4 / 5) ^ Suc i)) \<le> snd (attempt_dims w h ((4 / 5) ^ i))"
proof -
  have "(4 / 5 :: rat) ^ Suc i \<le> (4 / 5) ^ i"
    by (rule power_decreasing) simp_all
  then have "trunc_scaled w ((4 / 5) ^ Suc i) \<le> trunc_scaled w ((4 / 5) ^ i)"
    and "trunc_scaled h ((4 / 5) ^ Suc i) \<le> trunc_scaled h ((4 / 5) ^ i)"
    by (rule trunc_scaled_mono)+
  then show ?thesis
    by (simp add: attempt_dims_def target_w_def target_h_def)
qed

lemma resamples_shrink:
  assumes "Suc i < length (resamples (compress_png_to_pdf_under_size p fs png pdf mb))"
  shows "fst (resamples (compress_png_to_pdf_under_size p fs png pdf mb) ! Suc i)
           \<le> fst (resamples (compress_png_to_pdf_under_size p fs png pdf mb) ! i) \<and>
         snd (resamples (compress_png_to_pdf_under_size p fs png pdf mb) ! Suc i)
           \<le> snd (resamples (compress_png_to_pdf_under_size p fs png pdf mb) ! i)"
proof (cases "decoded_size p")
  case None
  with assms show ?thesis
    by (simp add: compress_png_to_pdf_under_size_def)
next
  case (Some d)
  obtain w h where d: "d = (w, h)" by (cases d)
  from resamples_compress [of p w h fs png pdf mb] Some d obtain m where
    m: "resamples (compress_png_to_pdf_under_size p fs png pdf mb) =
      map (\<lambda>i. attempt_dims w h ((4 / 5) ^ i)) [0..<m]"
    by auto
  with assms have "Suc i < m" by simp
  then show ?thesis
    unfolding m using attempt_dims_shrink [of w h i] by simp
qed

text \<open>
  C8 (as the code has it). For every bitmap and every budget the call makes at most 7
  attempts, and from one attempt to the next neither side of the resample target grows.
  The byte sizes are the encoder's: when the encoder is monotone in the target's sides, the
  size measured at an attempt is not larger than the size measured at the attempt before.
\<close>

theorem compress_sizes_shrink:
  "length (resamples (compress_png_to_pdf_under_size p fs png pdf mb)) \<le> 7 \<and>
   (Suc i < length (resamples (compress_png_to_pdf_under_size p fs png pdf mb)) \<longrightarrow>
      fst (resamples (compress_png_to_pdf_under_size p fs png pdf mb) ! Suc i)
        \<le> fst (resamples (compress_png_to_pdf_under_size p fs png pdf mb) ! i) \<and>
      snd (resamples (compress_png_to_pdf_under_size p fs png pdf mb) ! Suc i)
        \<le> snd (resamples (compress_png_to_pdf_under_size p fs png pdf mb) ! i)) \<and>
   (encoder_monotone p \<and>
    Suc i < length (resamples (compress_png_to_pdf_under_size p fs png pdf mb)) \<and>
    measured_sizes p (compress_png_to_pdf_under_size p fs png pdf mb) ! i = Some z \<and>
    measured_sizes p (compress_png_to_pdf_under_size p fs png pdf mb) ! Suc i = Some z' \<longrightarrow>
      z' \<le> z)"
proof -
  let ?r = "compress_png_to_pdf_under_size p fs png pdf mb"
  have c1: "length (resamples ?r) \<le> 7"
  proof (cases "decoded_size p")
    case None
    then show ?thesis
      by (simp add: compress_png_to_pdf_under_size_def)
  next
    case (Some d)
    obtain w h where d: "d = (w, h)" by (cases d)
    from resamples_compress [of p w h fs png pdf mb] Some d obtain m where
      "m \<le> 7" "resamples ?r = map (\<lambda>i. attempt_dims w h ((4 / 5) ^ i)) [0..<m]"
      by auto
    then show ?thesis by simp
  qed
  have c2: "Suc i < length (resamples ?r) \<longrightarrow>
      fst (resamples ?r ! Suc i) \<le> fst (resamples ?r ! i) \<and>
      snd (resamples ?r ! Suc i) \<le> snd (resamples ?r ! i)"
    using resamples_shrink [of i p fs png pdf mb] by blast
  have c3: "encoder_monotone p \<and> Suc i < length (resamples ?r) \<and>
    measured_sizes p ?r ! i = Some z \<and> measured_sizes p ?r ! Suc i = Some z' \<longrightarrow> z' \<le> z"
  proof
    assume a: "encoder_monotone p \<and> Suc i < length (resamples ?r) \<and>
      measured_sizes p ?r ! i = Some z \<and> measured_sizes p ?r ! Suc i = Some z'"
    obtain tw th where d0: "resamples ?r ! i = (tw, th)" by (cases "resamples ?r ! i")
    obtain tw' th' where d1: "resamples ?r ! Suc i = (tw', th')" by (cases "resamples ?r ! Suc i")
    from a have le: "tw' \<le> tw \<and> th' \<le> th"
      using resamples_shrink [of i p fs png pdf mb] d0 d1 by simp
    from a have i0: "i < length (resamples ?r)" and i1: "Suc i < length (resamples ?r)"
      by simp_all
    from a have "measured_sizes p ?r ! i = Some z" by simp
    with i0 d0 have z: "pdf_save_size p tw th = Some z"
      by (simp add: measured_sizes_def split: if_splits)
    from a have "measured_sizes p ?r ! Suc i = Some z'" by simp
    with i1 d1 have z': "pdf_save_size p tw' th' = Some z'"
      by (simp add: measured_sizes_def split: if_splits)
    from a le z z' show "z' \<le> z"
      unfolding encoder_monotone_def by blast
  qed
  from c1 c2 c3 show ?thesis by blast
qed

lemma example_pillow_monotone: "encoder_monotone (example_pillow w h)"
  by (auto simp: encoder_monotone_def example_pillow_def mult_le_mono)

theorem compress_sizes_shrink_witness:
  "length (resamples (compress_png_to_pdf_under_size (example_pillow 1000 2000) shot_fs
      ''shot.png'' ''out.pdf'' 1100000)) \<le> 7 \<and>
   resamples (compress_png_to_pdf_under_size (example_pillow 1000 2000) shot_fs
      ''shot.png'' ''out.pdf'' 1100000) ! 0 = (1000, 2000) \<and>
   resamples (compress_png_to_pdf_under_size (example_pillow 1000 2000) shot_fs
      ''shot.png'' ''out.pdf'' 1100000) ! Suc 0 = (800, 1600) \<and>
   measured_sizes (example_pillow 1000 2000)
     (compress_png_to_pdf_under_size (example_pillow 1000 2000) shot_fs
        ''shot.png'' ''out.pdf'' 1100000) ! 0 = Some 2000000 \<and>
   measured_sizes (example_pillow 1000 2000)
     (compress_png_to_pdf_under_size (example_pillow 1000 2000) shot_fs
        ''shot.png'' ''out.pdf'' 1100000) ! Suc 0 = Some 1280000 \<and>
   (1280000 :: nat) \<le> 2000000"
proof -
  have len: "Suc 0 < length (resamples (compress_png_to_pdf_under_size (example_pillow 1000 2000)
      shot_fs ''shot.png'' ''out.pdf'' 1100000))"
    by (simp add: run_simps)
  have m0: "measured_sizes (example_pillow 1000 2000)
     (compress_png_to_pdf_under_size (example_pillow 1000 2000) shot_fs
        ''shot.png'' ''out.pdf'' 1100000) ! 0 = Some 2000000"
    and m1: "measured_sizes (example_pillow 1000 2000)
     (compress_png_to_pdf_under_size (example_pillow 1000 2000) shot_fs
        ''shot.png'' ''out.pdf'' 1100000) ! Suc 0 = Some 1280000"
    and r0: "resamples (compress_png_to_pdf_under_size (example_pillow 1000 2000) shot_fs
      ''shot.png'' ''out.pdf'' 1100000) ! 0 = (1000, 2000)"
    and r1: "resamples (compress_png_to_pdf_under_size (example_pillow 1000 2000) shot_fs
      ''shot.png'' ''out.pdf'' 1100000) ! Suc 0 = (800, 1600)"
    by (simp_all add: measured_sizes_def run_simps)
  from compress_sizes_shrink [of "example_pillow 1000 2000" shot_fs "''shot.png''" "''out.pdf''"
      1100000 0 2000000 1280000]
    example_pillow_monotone [of 1000 2000] len m0 m1 r0 r1
  show ?thesis by simp
qed

text \<open>
  C8 (as the specification states it) is not a property of the loop: the loop compares each
  size with the budget and never with the size before. With an encoder whose output for
  the \<open>800 \<times> 1600\<close> target is larger than for the \<open>1000 \<times> 2000\<close> one, the second attempt
  measures more bytes than the first.
\<close>

theorem compress_sizes_shrink_counterexample:
  "measured_sizes noisy_pillow
     (compress_png_to_pdf_under_size noisy_pillow shot_fs ''shot.png'' ''out.pdf'' 5242880) ! 0
     = Some 6000000 \<and>
   measured_sizes noisy_pillow
     (compress_png_to_pdf_under_size noisy_pillow shot_fs ''shot.png'' ''out.pdf'' 5242880) ! 1
     = Some 7000000 \<and>
   \<not> (7000000 :: nat) \<le> 6000000"
  by (simp add: measured_sizes_def run_simps noisy_pillow_def)

section \<open>Properties of the extractor\<close>

lemmas str_simps = py_strip_def py_strip_chars_def strip_where_def is_space_def is_word_char_def
  py_in_def split_once_before_def split_once_after_def py_lower_def lower_char_def title_char_def upper_letters_def lower_letters_def
  falsy_def or_empty_def or_unknown_def

lemmas step_simps = resolve_title_text_def title_cascade_def title_selectors_def
  company_selectors_def step_og_site_name_def step_hiring_org_def step_company_selectors_def
  step_after_bar_def step_at_def step_host_def company_from_host_def final_title_def
  step_ld_json_def step_workday_def Let_def

text \<open>
  C1. The claim that both fields are always non-empty fails in both files: for a document
  with none of the elements the code looks for and a URL without a host name (such as a
  \<^verbatim>\<open>file:\<close> URL), the title is the placeholder but the company is the empty string. The
  last resort splits the empty host name into the one-element list \<^verbatim>\<open>['']\<close>, so its
  branch \<^verbatim>\<open>base = "Unknown"\<close> is never taken.
\<close>

theorem extract_job_info_empty_company:
  "extract_job_info_from_html blank_page None = (''Job from Unknown'', []) \<and>
   extract_job_info_from_html_WD blank_page None = (''Job from Unknown'', [])"
  by (simp add: extract_job_info_from_html_def extract_job_info_from_html_WD_def blank_page_def
      step_simps str_simps)

lemma after_bar_example: "company_after_bar ''Senior Engineer at Acme | Careers'' = []"
  by (simp add: company_after_bar_def suffix_words_def word_match_at_def str_simps)

lemma after_at_example: "company_after_at ''Senior Engineer at Acme | Careers'' = ''Acme''"
  by (simp add: company_after_at_def str_simps)

lemma at_in_example: "py_in '' at '' ''Senior Engineer at Acme | Careers''"
  by (simp add: py_in_def)

lemma title_steps_example:
  "falsy c \<Longrightarrow>
   step_at (Some ''Senior Engineer at Acme | Careers'')
     (step_after_bar (Some ''Senior Engineer at Acme | Careers'') c) = Some ''Acme''"
  using after_bar_example after_at_example at_in_example
  by (simp add: step_at_def step_after_bar_def)

lemma step_host_Some: "c \<noteq> [] \<Longrightarrow> step_host h (Some c) = c"
  by (simp add: step_host_def)

lemma falsy_og_site:
  "falsy (map_option py_strip (og_site_name pg)) \<Longrightarrow> falsy (step_og_site_name pg)"
  by (cases "og_site_name pg") (auto simp: step_og_site_name_def falsy_def)

text \<open>
  C9. When the resolved page title is \<^verbatim>\<open>Senior Engineer at Acme | Careers\<close> and no earlier
  step gives a company (no site name, no hiring organization, no company container; in the
  Workday variant also no Workday host and no company from JSON-LD), the company is
  \<^verbatim>\<open>Acme\<close>: the part after the last bar is \<^verbatim>\<open>Careers\<close>, which the suffix words erase, and
  the \<^verbatim>\<open>" at "\<close> step takes the text after it up to the bar.
\<close>

theorem company_from_at_pattern:
  assumes title: "resolve_title_text pg = Some ''Senior Engineer at Acme | Careers''"
    and og: "falsy (map_option py_strip (og_site_name pg))"
    and org: "falsy (hiring_org_name pg)"
    and sel: "first_selector_text pg company_selectors = None"
  shows "snd (extract_job_info_from_html pg url_hostname) = ''Acme'' \<and>
         (\<not> py_in ''myworkdayjobs.com'' (py_lower (or_empty url_hostname)) \<and>
          falsy (snd (step_ld_json pg)) \<longrightarrow>
            snd (extract_job_info_from_html_WD pg url_hostname) = ''Acme'')"
proof (intro conjI impI)
  have c1: "falsy (step_og_site_name pg)"
    using og by (rule falsy_og_site)
  then have c2: "falsy (step_hiring_org pg (step_og_site_name pg))"
    using org by (simp add: step_hiring_org_def)
  then have c3: "falsy (step_company_selectors pg (step_hiring_org pg (step_og_site_name pg)))"
    using sel by (simp add: step_company_selectors_def)
  show "snd (extract_job_info_from_html pg url_hostname) = ''Acme''"
    using title title_steps_example [OF c3]
    by (simp add: extract_job_info_from_html_def Let_def step_host_Some)
next
  assume wd: "\<not> py_in ''myworkdayjobs.com'' (py_lower (or_empty url_hostname)) \<and>
          falsy (snd (step_ld_json pg))"
  obtain jt0 c0 where ld: "step_ld_json pg = (jt0, c0)"
    by (cases "step_ld_json pg")
  with wd have c0: "falsy c0" by simp
  have c1: "step_workday (py_lower (or_empty url_hostname)) c0 = c0"
    using wd by (simp add: step_workday_def)
  have c2: "falsy (step_og_site_name pg)"
    using og by (rule falsy_og_site)
  then have c3: "falsy (step_hiring_org pg (step_og_site_name pg))"
    using org by (simp add: step_hiring_org_def)
  show "snd (extract_job_info_from_html_WD pg url_hostname) = ''Acme''"
    using title title_steps_example [OF c3] ld c0 c1
    by (simp add: extract_job_info_from_html_WD_def Let_def step_host_Some)
qed

theorem company_from_at_pattern_witness:
  "snd (extract_job_info_from_html at_title_page (Some ''jobs.example.com'')) = ''Acme'' \<and>
   snd (extract_job_info_from_html_WD at_title_page (Some ''jobs.example.com'')) = ''Acme''"
proof -
  have title: "resolve_title_text at_title_page = Some ''Senior Engineer at Acme | Careers''"
    by (simp add: at_title_page_def blank_page_def resolve_title_text_def str_simps)
  have og: "falsy (map_option py_strip (og_site_name at_title_page))"
    and org: "falsy (hiring_org_name at_title_page)"
    and sel: "first_selector_text at_title_page company_selectors = None"
    by (simp_all add: at_title_page_def blank_page_def falsy_def company_selectors_def)
  have wd: "\<not> py_in ''myworkdayjobs.com'' (py_lower (or_empty (Some ''jobs.example.com'')))"
    by (simp add: str_simps)
  have ld: "falsy (snd (step_ld_json at_title_page))"
    by (simp add: at_title_page_def blank_page_def step_ld_json_def falsy_def)
  from company_from_at_pattern [OF title og org sel, of "Some ''jobs.example.com''"] wd ld
  show ?thesis by simp
qed

lemma step_hiring_org_keep: "\<not> falsy c \<Longrightarrow> step_hiring_org pg c = c"
  by (simp add: step_hiring_org_def)

lemma step_after_bar_keep: "\<not> falsy c \<Longrightarrow> step_after_bar tt c = c"
  by (simp add: step_after_bar_def split: option.split)

lemma step_at_keep: "\<not> falsy c \<Longrightarrow> step_at tt c = c"
  by (simp add: step_at_def split: option.split)

lemma title_cascade_keep: "x \<noteq> [] \<Longrightarrow> title_cascade pg tt (Some x) = Some x"
  by (simp add: title_cascade_def falsy_def)

lemma final_title_Some: "x \<noteq> [] \<Longrightarrow> final_title h (Some x) = x"
  by (simp add: final_title_def)

lemma lower_acme: "py_lower (''acme-corp.'' @ rest) = ''acme-corp.'' @ py_lower rest"
  by (simp add: py_lower_def lower_char_def upper_letters_def lower_letters_def)

lemma lower_www_acme: "py_lower (''www.acme-corp.'' @ rest) = ''www.acme-corp.'' @ py_lower rest"
  by (simp add: py_lower_def lower_char_def upper_letters_def lower_letters_def)

lemma brand_acme: "hd (py_split_char CHR ''.'' (py_replace ''www.'' '''' (''acme-corp.'' @ x))) = ''acme-corp''"
  by simp

lemma brand_www_acme:
  "hd (py_split_char CHR ''.'' (py_replace ''www.'' '''' (''www.acme-corp.'' @ x))) = ''acme-corp''"
  by simp

lemma workday_brand_acme: "workday_brand ''acme-corp'' = ''Acme Corp''"
  by (simp add: workday_brand_def is_space_def lower_char_def title_char_def upper_letters_def lower_letters_def)

text \<open>
  C4. In the Workday variant, for a host name that contains \<^verbatim>\<open>myworkdayjobs.com\<close> and
  starts with the label \<^verbatim>\<open>acme-corp\<close>, or with \<^verbatim>\<open>www.\<close> and then that label, the company
  is \<^verbatim>\<open>Acme Corp\<close> for every document: the host step overwrites what JSON-LD gave, and
  every later company step only runs while the company is still missing.
\<close>

theorem workday_host_gives_brand:
  assumes shape: "h = ''acme-corp.'' @ rest \<or> h = ''www.acme-corp.'' @ rest"
    and wd: "py_in ''myworkdayjobs.com'' (py_lower h)"
  shows "snd (extract_job_info_from_html_WD pg (Some h)) = ''Acme Corp''"
proof -
  have brand: "hd (py_split_char CHR ''.'' (py_replace ''www.'' '''' (py_lower h))) = ''acme-corp''"
    using shape lower_acme lower_www_acme brand_acme brand_www_acme by auto
  have c1: "step_workday (py_lower h) c0 = Some ''Acme Corp''" for c0
    using wd brand workday_brand_acme by (simp add: step_workday_def Let_def)
  have nf: "\<not> falsy (Some ''Acme Corp'')"
    by (simp add: falsy_def)
  obtain jt0 c0 where ld: "step_ld_json pg = (jt0, c0)"
    by (cases "step_ld_json pg")
  show ?thesis
    using ld c1 nf
    by (simp add: extract_job_info_from_html_WD_def Let_def or_empty_def step_hiring_org_keep
        step_after_bar_keep step_at_keep step_host_def)
qed

theorem workday_host_gives_brand_witness:
  "snd (extract_job_info_from_html_WD conflicting_page
      (Some ''acme-corp.wd1.myworkdayjobs.com'')) = ''Acme Corp'' \<and>
   snd (extract_job_info_from_html_WD conflicting_page
      (Some ''www.acme-corp.wd1.myworkdayjobs.com'')) = ''Acme Corp''"
proof -
  have s1: "''acme-corp.wd1.myworkdayjobs.com'' = ''acme-corp.'' @ ''wd1.myworkdayjobs.com'' \<or>
      ''acme-corp.wd1.myworkdayjobs.com'' = ''www.acme-corp.'' @ ''wd1.myworkdayjobs.com''"
    by simp
  have s2: "''www.acme-corp.wd1.myworkdayjobs.com'' = ''acme-corp.'' @ ''wd1.myworkdayjobs.com'' \<or>
      ''www.acme-corp.wd1.myworkdayjobs.com'' = ''www.acme-corp.'' @ ''wd1.myworkdayjobs.com''"
    by simp
  have w1: "py_in ''myworkdayjobs.com'' (py_lower ''acme-corp.wd1.myworkdayjobs.com'')"
    by (simp add: py_in_def py_lower_def lower_char_def upper_letters_def lower_letters_def)
  have w2: "py_in ''myworkdayjobs.com'' (py_lower ''www.acme-corp.wd1.myworkdayjobs.com'')"
    by (simp add: py_in_def py_lower_def lower_char_def upper_letters_def lower_letters_def)
  from workday_host_gives_brand [OF s1 w1, of conflicting_page]
    workday_host_gives_brand [OF s2 w2, of conflicting_page]
  show ?thesis by simp
qed

lemma find_append_cases:
  "find P (xs @ ys) = (case find P xs of None \<Rightarrow> find P ys | Some x \<Rightarrow> Some x)"
  by (induction xs) auto

lemma try_extract_untagged:
  "\<not> tagged_job_posting x \<Longrightarrow> try_extract_jobposting_from_obj x = Ret None"
  by (cases x) simp_all

lemma try_extract_tagged:
  "tagged_job_posting x \<Longrightarrow> try_extract_jobposting_from_obj x \<noteq> Ret None"
  by (cases x) (simp_all add: Let_def split: raising.splits)

lemma first_candidate_find:
  "first_candidate items =
     (case find tagged_job_posting items of
        None \<Rightarrow> Ret None
      | Some x \<Rightarrow> try_extract_jobposting_from_obj x)"
proof (induction items)
  case Nil
  then show ?case by simp
next
  case (Cons item items)
  show ?case
  proof (cases "tagged_job_posting item")
    case True
    then have "try_extract_jobposting_from_obj item \<noteq> Ret None"
      by (rule try_extract_tagged)
    with True show ?thesis
      by (simp split: raising.splits option.splits)
  next
    case False
    then show ?thesis
      using Cons.IH by (simp add: try_extract_untagged)
  qed
qed

lemma scan_ld_json_first_posting:
  "scan_ld_json blocks =
     (case first_posting blocks of
        None \<Rightarrow> Ret None
      | Some x \<Rightarrow> try_extract_jobposting_from_obj x)"
proof (induction blocks rule: scan_ld_json.induct)
  case 1
  then show ?case by (simp add: first_posting_def embedded_objects_def)
next
  case (2 blocks)
  then show ?case by (simp add: first_posting_def embedded_objects_def)
next
  case (3 data blocks)
  show ?case
  proof (cases "\<exists>items. data = JArr items")
    case True
    then obtain items where d: "data = JArr items" by blast
    show ?thesis
    proof (cases "find tagged_job_posting items")
      case None
      then have "first_candidate items = Ret None"
        by (simp add: first_candidate_find)
      with None d 3 show ?thesis
        by (simp add: first_posting_def embedded_objects_def find_append_cases)
    next
      case (Some x)
      then have x: "tagged_job_posting x"
        by (auto simp: find_Some_iff)
      have "first_candidate items = try_extract_jobposting_from_obj x"
        using Some by (simp add: first_candidate_find)
      with Some d try_extract_tagged [OF x] show ?thesis
        by (simp add: first_posting_def embedded_objects_def find_append_cases
            split: raising.splits option.splits)
    qed
  next
    case False
    then have emb: "embedded_objects (Some data # blocks) = data # embedded_objects blocks"
      by (cases data) (simp_all add: embedded_objects_def)
    have inner: "(case data of JArr items \<Rightarrow> first_candidate items
        | _ \<Rightarrow> try_extract_jobposting_from_obj data) = try_extract_jobposting_from_obj data"
      using False by (cases data) simp_all
    show ?thesis
    proof (cases "tagged_job_posting data")
      case True
      with try_extract_tagged [OF True] show ?thesis
        unfolding scan_ld_json.simps inner
        by (simp add: first_posting_def emb split: raising.splits option.splits)
    next
      case nt: False
      then have none: "try_extract_jobposting_from_obj data = Ret None"
        by (rule try_extract_untagged)
      have comb: "(case data of JArr items \<Rightarrow> first_candidate items
        | _ \<Rightarrow> try_extract_jobposting_from_obj data) = Ret None"
        unfolding inner by (rule none)
      have lhs: "scan_ld_json (Some data # blocks) = scan_ld_json blocks"
        by (simp only: scan_ld_json.simps comb raising.case option.case)
      have rhs: "first_posting (Some data # blocks) = first_posting blocks"
        using nt by (simp add: first_posting_def emb)
      have "scan_ld_json blocks =
        (case first_posting blocks of
           None \<Rightarrow> Ret None
         | Some x \<Rightarrow> try_extract_jobposting_from_obj x)"
        by (rule 3 [OF comb refl])
      then show ?thesis
        unfolding lhs rhs .
    qed
  qed
qed

lemma find_Some_holds: "find P xs = Some x \<Longrightarrow> P x"
  by (induction xs) (auto split: if_splits)

lemma first_posting_tagged: "first_posting blocks = Some x \<Longrightarrow> tagged_job_posting x"
  unfolding first_posting_def by (rule find_Some_holds)

lemma title_cascade_heading:
  "falsy jt \<Longrightarrow> h1_text pg = Some h \<Longrightarrow> h \<noteq> [] \<Longrightarrow> title_cascade pg tt jt = Some h"
  by (simp add: title_cascade_def falsy_def)

lemma get_name_of_falsy: "\<not> py_truthy x \<Longrightarrow> get_name_of x = Ret JNull"
  by (cases x) (simp_all add: dict_get_def)

lemma py_strip_Nil: "py_strip [] = []"
  by (simp add: py_strip_def strip_where_def)

text \<open>
  C3 (as the code has it). The Workday variant looks at the structured-data objects in
  document order (a block's top-level object, or the items of a top-level array) and stops
  at the first one tagged as a job posting. When that posting's \<^verbatim>\<open>title\<close> is a string with
  something left after stripping, the job title is that stripped string, whatever the
  heading says. When that posting has neither a truthy \<^verbatim>\<open>title\<close> nor a truthy
  \<^verbatim>\<open>identifier\<close>, a non-empty heading is the job title, whatever the later blocks hold. In
  \<^verbatim>\<open>Not_JoAps.py\<close>, which has no structured-data step, a non-empty heading is always the
  job title.
\<close>

theorem structured_title_precedence:
  "(first_posting (ld_json pg) = Some (JObj kvs) \<and> dict_get kvs ''title'' = JStr t \<and>
    py_strip t \<noteq> [] \<longrightarrow>
      fst (extract_job_info_from_html_WD pg url_hostname) = py_strip t) \<and>
   (first_posting (ld_json pg) = Some (JObj kvs) \<and> \<not> py_truthy (dict_get kvs ''title'') \<and>
    \<not> py_truthy (dict_get kvs ''identifier'') \<and> h1_text pg = Some h \<and> h \<noteq> [] \<longrightarrow>
      fst (extract_job_info_from_html_WD pg url_hostname) = h) \<and>
   (h1_text pg = Some h \<and> h \<noteq> [] \<longrightarrow>
      fst (extract_job_info_from_html pg url_hostname) = h)"
proof (intro conjI impI)
  assume a: "first_posting (ld_json pg) = Some (JObj kvs) \<and> dict_get kvs ''title'' = JStr t \<and>
    py_strip t \<noteq> []"
  then have tagged: "tagged_job_posting (JObj kvs)"
    using first_posting_tagged by blast
  have t: "t \<noteq> []"
    using a py_strip_Nil by auto
  have "\<exists>cname. try_extract_jobposting_from_obj (JObj kvs) = Ret (Some (Some (py_strip t), cname))"
    using tagged a t by (simp add: Let_def)
  then obtain cname where
    "scan_ld_json (ld_json pg) = Ret (Some (Some (py_strip t), cname))"
    using a by (auto simp: scan_ld_json_first_posting)
  then have "fst (step_ld_json pg) = Some (py_strip t)"
    using a by (simp add: step_ld_json_def falsy_def)
  then obtain c0 where ld: "step_ld_json pg = (Some (py_strip t), c0)"
    by (cases "step_ld_json pg") simp
  show "fst (extract_job_info_from_html_WD pg url_hostname) = py_strip t"
    using ld a
    by (simp add: extract_job_info_from_html_WD_def Let_def title_cascade_keep final_title_Some)
next
  assume a: "first_posting (ld_json pg) = Some (JObj kvs) \<and> \<not> py_truthy (dict_get kvs ''title'') \<and>
    \<not> py_truthy (dict_get kvs ''identifier'') \<and> h1_text pg = Some h \<and> h \<noteq> []"
  then have tagged: "tagged_job_posting (JObj kvs)"
    using first_posting_tagged by blast
  have "\<exists>cname. try_extract_jobposting_from_obj (JObj kvs) = Ret (Some (None, cname))"
    using tagged a by (simp add: Let_def get_name_of_falsy)
  then obtain cname where
    "scan_ld_json (ld_json pg) = Ret (Some (None, cname))"
    using a by (auto simp: scan_ld_json_first_posting)
  then have "fst (step_ld_json pg) = None"
    by (simp add: step_ld_json_def falsy_def)
  then obtain c0 where ld: "step_ld_json pg = (None, c0)"
    by (cases "step_ld_json pg") simp
  have "title_cascade pg (resolve_title_text pg) None = Some h"
    using a by (simp add: title_cascade_heading falsy_def)
  then show "fst (extract_job_info_from_html_WD pg url_hostname) = h"
    using ld a
    by (simp add: extract_job_info_from_html_WD_def Let_def final_title_Some)
next
  assume a: "h1_text pg = Some h \<and> h \<noteq> []"
  then have "title_cascade pg (resolve_title_text pg) None = Some h"
    by (simp add: title_cascade_heading falsy_def)
  then show "fst (extract_job_info_from_html pg url_hostname) = h"
    using a by (simp add: extract_job_info_from_html_def Let_def final_title_Some)
qed

theorem structured_title_precedence_witness:
  "fst (extract_job_info_from_html_WD conflicting_page (Some ''jobs.example.com''))
     = ''Data Engineer'' \<and>
   fst (extract_job_info_from_html_WD array_page (Some ''jobs.example.com''))
     = ''Data Engineer'' \<and>
   fst (extract_job_info_from_html_WD untitled_first_page (Some ''jobs.example.com''))
     = ''Careers at Acme'' \<and>
   fst (extract_job_info_from_html conflicting_page (Some ''jobs.example.com''))
     = ''Careers at Acme''"
proof -
  have p1: "first_posting (ld_json conflicting_page) =
      Some (JObj [(''@type'', JStr ''JobPosting''), (''title'', JStr ''Data Engineer''),
        (''hiringOrganization'', JObj [(''name'', JStr ''Other Inc'')])]) \<and>
    dict_get [(''@type'', JStr ''JobPosting''), (''title'', JStr ''Data Engineer''),
        (''hiringOrganization'', JObj [(''name'', JStr ''Other Inc'')])] ''title''
      = JStr ''Data Engineer'' \<and>
    py_strip ''Data Engineer'' \<noteq> []"
    by (simp add: conflicting_page_def blank_page_def first_posting_def embedded_objects_def
        dict_get_def py_strip_def strip_where_def is_space_def)
  have p2: "first_posting (ld_json array_page) =
      Some (JObj [(''@type'', JArr [JStr ''Thing'', JStr ''JobPosting'']),
              (''title'', JStr '' Data Engineer '')]) \<and>
    dict_get [(''@type'', JArr [JStr ''Thing'', JStr ''JobPosting'']),
              (''title'', JStr '' Data Engineer '')] ''title'' = JStr '' Data Engineer '' \<and>
    py_strip '' Data Engineer '' \<noteq> []"
    by (simp add: array_page_def blank_page_def first_posting_def embedded_objects_def
        dict_get_def py_strip_def strip_where_def is_space_def)
  have p3: "first_posting (ld_json untitled_first_page) = Some (JObj [(''@type'', JStr ''JobPosting'')]) \<and>
    \<not> py_truthy (dict_get [(''@type'', JStr ''JobPosting'')] ''title'') \<and>
    \<not> py_truthy (dict_get [(''@type'', JStr ''JobPosting'')] ''identifier'') \<and>
    h1_text untitled_first_page = Some ''Careers at Acme'' \<and> ''Careers at Acme'' \<noteq> []"
    by (simp add: untitled_first_page_def blank_page_def first_posting_def embedded_objects_def
        dict_get_def)
  have p4: "h1_text conflicting_page = Some ''Careers at Acme'' \<and> ''Careers at Acme'' \<noteq> []"
    by (simp add: conflicting_page_def blank_page_def)
  have s1: "py_strip ''Data Engineer'' = ''Data Engineer''"
    and s2: "py_strip '' Data Engineer '' = ''Data Engineer''"
    by (simp_all add: py_strip_def strip_where_def is_space_def)
  from structured_title_precedence [of conflicting_page _ "''Data Engineer''"
      "Some ''jobs.example.com''" "''Careers at Acme''"] p1 p4
    structured_title_precedence [of array_page _ "'' Data Engineer ''"
      "Some ''jobs.example.com''"] p2
    structured_title_precedence [of untitled_first_page _ _
      "Some ''jobs.example.com''" "''Careers at Acme''"] p3
  show ?thesis
    unfolding s1 s2 by blast
qed

text \<open>
  C3 (as the specification states it) fails. \<^verbatim>\<open>Not_JoAps.py\<close> has no JSON-LD step and takes
  the heading; and the Workday variant stops at the first job posting it finds, so when
  that one has no title the heading wins over a later posting that has one.
\<close>

theorem structured_title_counterexample:
  "fst (extract_job_info_from_html conflicting_page (Some ''jobs.example.com''))
     = ''Careers at Acme'' \<and>
   fst (extract_job_info_from_html conflicting_page (Some ''jobs.example.com''))
     \<noteq> ''Data Engineer'' \<and>
   fst (extract_job_info_from_html_WD untitled_first_page (Some ''jobs.example.com''))
     = ''Careers at Acme'' \<and>
   fst (extract_job_info_from_html_WD untitled_first_page (Some ''jobs.example.com''))
     \<noteq> ''Data Engineer''"
  by (simp add: extract_job_info_from_html_def extract_job_info_from_html_WD_def
      conflicting_page_def untitled_first_page_def blank_page_def dict_get_def
      step_simps str_simps)

end
